theory Spec2Isabelle
  imports Complex_Main
begin

section \<open>Graph model\<close>

text \<open>
  A canvas node as the flow engine reads it: the id, and from \<open>node.data\<close> the node type,
  the label and the parameters. \<open>data.parameters\<close> is an optional string-to-string object
  that is only ever read as \<open>params?.key || default\<close>; it is kept as an association list
  read with \<open>map_of\<close>, the absent object being the empty list. Position and styling are
  not read by the engine and are left out.
\<close>

record node =
  node_id :: string
  nodeType :: string
  label :: string
  parameters :: "(string \<times> string) list"

text \<open>An edge of the canvas: its id, its end points and the two optional handle names.\<close>

record edge =
  edge_id :: string
  source :: string
  target :: string
  sourceHandle :: "string option"
  targetHandle :: "string option"

section \<open>Execution order\<close>

text \<open>
  \<open>adjacencyMap\<close> of \<open>getExecutionOrder\<close>: a fresh \<open>Map\<close> on which
  \<open>set(edge.source, edge.target)\<close> is called for the edges in array order.
\<close>

definition buildAdjacency :: "edge list \<Rightarrow> (string \<rightharpoonup> string)" where
  "buildAdjacency edges = foldl (\<lambda>m e. m(source e \<mapsto> target e)) Map.empty edges"

text \<open>
  The \<open>while (currentNodeId)\<close> loop. \<open>currentNodeId\<close> is \<open>string | undefined\<close>; the loop
  test is JavaScript truthiness, so both \<open>undefined\<close> and the empty string leave the loop.
  The loop has no bound: where it does not leave, the function has no value (\<open>None\<close>);
  \<open>Some order\<close> is the array \<open>executionOrder\<close> when the loop is left.
\<close>

partial_function (option) walk ::
  "node list \<Rightarrow> (string \<rightharpoonup> string) \<Rightarrow> string option \<Rightarrow> node list \<Rightarrow> node list option"
where
  "walk nodes adjacencyMap currentNodeId executionOrder =
     (case currentNodeId of
        None \<Rightarrow> Some executionOrder
      | Some cid \<Rightarrow>
          if cid = [] then Some executionOrder
          else (case find (\<lambda>n. node_id n = cid) nodes of
                  None \<Rightarrow> Some executionOrder
                | Some currentNode \<Rightarrow>
                    if nodeType currentNode = ''End''
                    then Some (executionOrder @ [currentNode])
                    else walk nodes adjacencyMap (adjacencyMap cid)
                           (executionOrder @ [currentNode])))"

declare walk.simps [code]

text \<open>
  \<open>getExecutionOrder\<close>. The inner option is the source's \<open>Node[] | null\<close>; the outer
  one is \<open>None\<close> where the traversal loop never leaves.
\<close>

definition getExecutionOrder :: "node list \<Rightarrow> edge list \<Rightarrow> node list option option" where
  "getExecutionOrder nodes edges =
     (case find (\<lambda>n. nodeType n = ''Start'') nodes of
        None \<Rightarrow> Some None
      | Some startNode \<Rightarrow>
          (case find (\<lambda>n. nodeType n = ''End'') nodes of
             None \<Rightarrow> Some None
           | Some endNode \<Rightarrow>
               (case walk nodes (buildAdjacency edges) (Some (node_id startNode)) [] of
                  None \<Rightarrow> None
                | Some executionOrder \<Rightarrow>
                    if executionOrder = [] \<or> nodeType (last executionOrder) \<noteq> ''End''
                    then Some None
                    else Some (Some executionOrder))))"

section \<open>Running a flow\<close>

text \<open>
  One element of \<open>logMessages\<close>; \<open>outputText\<close> is the source's field \<open>output\<close>. The
  \<open>timestamp\<close> field is \<open>new Date()\<close>, the wall clock, and is left out.
\<close>

record log_entry =
  nodeId :: string
  nodeName :: string
  outputText :: string

text \<open>The bodies that \<open>runFlow\<close> posts: to /api/gemini, to /api/web-scrape and to /api/pinecone.\<close>

datatype request =
    GeminiRequest (systemInstruction: string) (userMessage: string) (temperature: string)
      (maxOutputTokens: string) (topK: string)
  | WebScrapeRequest (url: string) (instruction: string)
  | EmbedRequest (embedText: string) (embedSource: string) (embedInfo: string)
      (embedTag: string) (embedWorkflow: string) (embedNodeId: string)
  | SearchRequest (query: string) (searchTopK: string)

text \<open>One element of \<open>data.matches\<close>, as the \<open>forEach\<close> callback reads it: \<open>m_score\<close>
  is the text of \<open>match.score.toFixed(4)\<close>, \<open>m_text100\<close> the text of
  \<open>match.text.substring(0, 100)\<close>; \<open>m_source\<close> and \<open>m_tag\<close> are empty when the field is
  absent (they are only tested for truthiness before they are printed).\<close>

record match =
  m_score :: string
  m_text100 :: string
  m_source :: string
  m_tag :: string

text \<open>
  The parsed JSON body of a response, field by field as \<open>runFlow\<close> reads it. A field
  that is interpolated into a template string holds the text the interpolation yields;
  \<open>b_data\<close> and \<open>b_metadata\<close> hold the text of \<open>JSON.stringify(_, null, 2)\<close>;
  \<open>b_error\<close> and \<open>b_details\<close> are empty when absent (only their truthiness is read).
\<close>

record body =
  b_output :: string
  b_error :: string
  b_details :: string
  b_url :: string
  b_instruction :: string
  b_data :: string
  b_id :: string
  b_dimension :: string
  b_metadata :: string
  b_query :: string
  b_resultsCount :: string
  b_topK :: string
  b_matches :: "match list"

text \<open>
  What one \<open>try\<close> block of \<open>runFlow\<close> meets: \<open>Threw msg\<close> when \<open>fetch\<close>,
  \<open>response.json()\<close> or the formatting of the body raises an exception with message
  \<open>msg\<close> (the \<open>catch\<close> branch), \<open>Response ok data\<close> otherwise, with \<open>response.ok\<close> and the
  parsed body.
\<close>

datatype fetch_result = Threw string | Response bool body

text \<open>The spec's phases of a run, recorded at the control points of \<open>runFlow\<close>.\<close>

datatype phase = Resolving | Running | Completed | Failed

text \<open>
  What a run leaves behind: the final \<open>logMessages\<close>, the requests sent in order, and
  the phases passed through.
\<close>

record run =
  logMessages :: "log_entry list"
  calls :: "request list"
  phases :: "phase list"

text \<open>The bytes that open the fixed messages, as the string literals of the source have them.\<close>

definition crossMark :: string where
  "crossMark = [CHR 0xE2, CHR 0x80, CHR 0x9A, CHR 0xC3, CHR 0xB9, CHR 0xC3, CHR 0xA5]"

definition playMark :: string where
  "playMark =
     [CHR 0xE2, CHR 0x80, CHR 0x9A, CHR 0xC3, CHR 0xB1, CHR 0xE2, CHR 0x88, CHR 0x82,
      CHR 0xC3, CHR 0x94, CHR 0xE2, CHR 0x88, CHR 0x8F, CHR 0xC3, CHR 0xA8]"

definition stopMark :: string where
  "stopMark =
     [CHR 0xE2, CHR 0x80, CHR 0x9A, CHR 0xC3, CHR 0xA8, CHR 0xCF, CHR 0x80, CHR 0xC3,
      CHR 0x94, CHR 0xE2, CHR 0x88, CHR 0x8F, CHR 0xC3, CHR 0xA8]"

definition checkMark :: string where
  "checkMark = [CHR 0xE2, CHR 0x80, CHR 0x9A, CHR 0xC3, CHR 0xBA, CHR 0xC3, CHR 0x96]"

definition newline :: string where
  "newline = [CHR 0x0A]"

text \<open>Decimal text of a length, as a template string prints it.\<close>

fun showNat :: "nat \<Rightarrow> string" where
  "showNat n = (if n < 10 then [''0123456789'' ! n]
                else showNat (n div 10) @ [''0123456789'' ! (n mod 10)])"

text \<open>\<open>a || b\<close> on strings: the empty string is falsy.\<close>

definition orElse :: "string \<Rightarrow> string \<Rightarrow> string" where
  "orElse a b = (if a = [] then b else a)"

text \<open>\<open>params?.key || dflt\<close>: an absent key reads \<open>undefined\<close>, falsy as the empty string is.\<close>

definition param :: "node \<Rightarrow> string \<Rightarrow> string \<Rightarrow> string" where
  "param n key dflt = (case map_of (parameters n) key of None \<Rightarrow> dflt | Some v \<Rightarrow> orElse v dflt)"

definition logEntry :: "node \<Rightarrow> string \<Rightarrow> log_entry" where
  "logEntry n out = \<lparr>nodeId = node_id n, nodeName = label n, outputText = out\<rparr>"

definition systemEntry :: "string \<Rightarrow> log_entry" where
  "systemEntry out = \<lparr>nodeId = ''system'', nodeName = ''System'', outputText = out\<rparr>"

definition validationMessage :: string where
  "validationMessage =
     crossMark @ '' Error: Flow validation failed. Make sure you have:'' @ newline @
     ''1. A Start node'' @ newline @ ''2. An End node'' @ newline @
     ''3. All nodes connected in a path from Start to End''"

definition startedMessage :: "nat \<Rightarrow> string" where
  "startedMessage n = playMark @ '' Flow execution started with '' @ showNat n @ '' nodes''"

text \<open>
  The four service blocks of the loop body, each split into the request it posts and the
  entry text its \<open>try\<close>/\<open>catch\<close> produces from what comes back. The flag is \<open>True\<close>
  where the loop goes on and \<open>False\<close> on the branches that end in
  \<open>return\<close> (\<^emph>\<open>Stop execution on error\<close>).
\<close>

definition llmRequest :: "node \<Rightarrow> request" where
  "llmRequest n =
     GeminiRequest (param n ''systemInstruction'' '''') (param n ''userMessage'' '''')
       (param n ''temperature'' ''0.7'') (param n ''maxOutputTokens'' ''1024'')
       (param n ''topK'' ''40'')"

definition llmResult :: "fetch_result \<Rightarrow> bool \<times> string" where
  "llmResult r =
     (case r of
        Threw msg \<Rightarrow> (False, ''Error: '' @ msg)
      | Response ok data \<Rightarrow>
          if ok then (True, b_output data)
          else (False, ''Error: '' @ orElse (b_error data) ''Failed to get response''))"

definition webScrapeRequest :: "node \<Rightarrow> request" where
  "webScrapeRequest n = WebScrapeRequest (param n ''url'' '''') (param n ''instruction'' '''')"

definition webScrapeResult :: "fetch_result \<Rightarrow> bool \<times> string" where
  "webScrapeResult r =
     (case r of
        Threw msg \<Rightarrow> (False, ''Error: '' @ msg)
      | Response ok data \<Rightarrow>
          if ok then
            (True,
             checkMark @ '' Extraction Complete'' @ newline @ newline @
             ''URL: '' @ b_url data @ newline @
             ''Instruction: '' @ b_instruction data @ newline @ newline @
             ''--- Extracted Data ---'' @ newline @
             b_data data)
          else (False,
                ''Error: '' @
                orElse (b_error data) (orElse (b_details data) ''Failed to extract data'')))"

definition embedRequest :: "node \<Rightarrow> request" where
  "embedRequest n =
     EmbedRequest (param n ''text'' '''') (param n ''source'' '''') (param n ''info'' '''')
       (param n ''tag'' '''') (param n ''workflow'' '''') (node_id n)"

definition embedResult :: "fetch_result \<Rightarrow> bool \<times> string" where
  "embedResult r =
     (case r of
        Threw msg \<Rightarrow> (False, ''Error: '' @ msg)
      | Response ok data \<Rightarrow>
          if ok then
            (True,
             checkMark @ '' Embedding Generated & Stored'' @ newline @ newline @
             ''ID: '' @ b_id data @ newline @
             ''Dimension: '' @ b_dimension data @ newline @ newline @
             ''--- Metadata ---'' @ newline @
             b_metadata data)
          else (False,
                ''Error: '' @
                orElse (b_error data) (orElse (b_details data) ''Failed to generate embedding'')))"

definition searchRequest :: "node \<Rightarrow> request" where
  "searchRequest n = SearchRequest (param n ''query'' '''') (param n ''topK'' ''5'')"

text \<open>The callback of \<open>data.matches.forEach\<close>, for the match at \<open>index\<close>.\<close>

definition matchText :: "nat \<Rightarrow> match \<Rightarrow> string" where
  "matchText index m =
     showNat (index + 1) @ ''. Score: '' @ m_score m @ newline @
     ''   Text: '' @ m_text100 m @ ''...'' @ newline @
     (if m_source m \<noteq> [] then ''   Source: '' @ m_source m @ newline else []) @
     (if m_tag m \<noteq> [] then ''   Tag: '' @ m_tag m @ newline else []) @
     newline"

definition searchResult :: "fetch_result \<Rightarrow> bool \<times> string" where
  "searchResult r =
     (case r of
        Threw msg \<Rightarrow> (False, ''Error: '' @ msg)
      | Response ok data \<Rightarrow>
          if ok then
            (True,
             checkMark @ '' Similarity Search Complete'' @ newline @ newline @
             ''Query: '' @ b_query data @ newline @
             ''Results Found: '' @ b_resultsCount data @ newline @ newline @
             ''--- Top '' @ b_topK data @ '' Matches ---'' @ newline @ newline @
             concat (map (\<lambda>(index, m). matchText index m) (enumerate 0 (b_matches data))))
          else (False,
                ''Error: '' @ orElse (b_error data) (orElse (b_details data) ''Failed to search'')))"

text \<open>
  What one iteration of \<open>for (const node of executionOrder)\<close> does: \<open>Marker out\<close> for
  the Start and End branches (an entry, then \<open>continue\<close>); \<open>Called req ok out\<close> for a
  service block (the request is sent, an entry is appended, and the loop goes on when
  \<open>ok\<close>); \<open>Skip\<close> when no branch tests true, so that the iteration does nothing. The
  answer to the request of iteration \<open>i\<close> is \<open>remote i req\<close>.
\<close>

datatype step = Skip | Marker string | Called request bool string

definition executeNode :: "(nat \<Rightarrow> request \<Rightarrow> fetch_result) \<Rightarrow> nat \<Rightarrow> node \<Rightarrow> step" where
  "executeNode remote i n =
     (if nodeType n = ''Start'' then Marker (playMark @ '' Starting flow execution...'')
      else if nodeType n = ''End''
        then Marker (stopMark @ '' Flow execution completed successfully'')
      else if nodeType n = ''LLM''
        then (let req = llmRequest n; (ok, out) = llmResult (remote i req)
              in Called req ok out)
      else if nodeType n = ''Web Scraping''
        then (let req = webScrapeRequest n; (ok, out) = webScrapeResult (remote i req)
              in Called req ok out)
      else if nodeType n = ''Embedding Generator''
        then (let req = embedRequest n; (ok, out) = embedResult (remote i req)
              in Called req ok out)
      else if nodeType n = ''Similarity Search''
        then (let req = searchRequest n; (ok, out) = searchResult (remote i req)
              in Called req ok out)
      else Skip)"

text \<open>The \<open>for\<close> loop of \<open>runFlow\<close>, from iteration \<open>i\<close> on.\<close>

fun runNodes :: "(nat \<Rightarrow> request \<Rightarrow> fetch_result) \<Rightarrow> nat \<Rightarrow> node list \<Rightarrow> run \<Rightarrow> run" where
  "runNodes remote i [] st = st\<lparr>phases := phases st @ [Completed]\<rparr>"
| "runNodes remote i (n # rest) st =
     (case executeNode remote i n of
        Skip \<Rightarrow> runNodes remote (Suc i) rest st
      | Marker out \<Rightarrow>
          runNodes remote (Suc i) rest (st\<lparr>logMessages := logMessages st @ [logEntry n out]\<rparr>)
      | Called req ok out \<Rightarrow>
          (let st' = st\<lparr>logMessages := logMessages st @ [logEntry n out],
                        calls := calls st @ [req]\<rparr>
           in if ok then runNodes remote (Suc i) rest st'
              else st'\<lparr>phases := phases st' @ [Failed]\<rparr>))"

declare runNodes.simps [simp del]

text \<open>
  \<open>runFlow\<close>: \<open>None\<close> where \<open>getExecutionOrder\<close> does not return. The log is emptied first
  and then set, so the final log does not depend on the one before the run.
\<close>

definition runFlow :: "(nat \<Rightarrow> request \<Rightarrow> fetch_result) \<Rightarrow> node list \<Rightarrow> edge list \<Rightarrow> run option" where
  "runFlow remote nodes edges =
     (case getExecutionOrder nodes edges of
        None \<Rightarrow> None
      | Some None \<Rightarrow>
          Some \<lparr>logMessages = [systemEntry validationMessage], calls = [],
                phases = [Resolving, Failed]\<rparr>
      | Some (Some executionOrder) \<Rightarrow>
          Some (runNodes remote 0 executionOrder
                  \<lparr>logMessages = [systemEntry (startedMessage (length executionOrder))],
                   calls = [], phases = [Resolving, Running]\<rparr>))"

text \<open>
  Whether iteration \<open>i\<close> on node \<open>n\<close> takes a branch that ends in \<open>return\<close>: the node
  fails and the run stops there.
\<close>

definition halts :: "(nat \<Rightarrow> request \<Rightarrow> fetch_result) \<Rightarrow> nat \<Rightarrow> node \<Rightarrow> bool" where
  "halts remote i n = (case executeNode remote i n of Called req ok out \<Rightarrow> \<not> ok | _ \<Rightarrow> False)"

text \<open>What iterations \<open>k, k + 1, ...\<close> on the nodes \<open>xs\<close> append to the log and send.\<close>

definition stepEntry :: "node \<Rightarrow> step \<Rightarrow> log_entry list" where
  "stepEntry n s =
     (case s of Skip \<Rightarrow> [] | Marker out \<Rightarrow> [logEntry n out] | Called req ok out \<Rightarrow> [logEntry n out])"

definition stepCall :: "step \<Rightarrow> request list" where
  "stepCall s = (case s of Called req ok out \<Rightarrow> [req] | _ \<Rightarrow> [])"

definition entries :: "(nat \<Rightarrow> request \<Rightarrow> fetch_result) \<Rightarrow> nat \<Rightarrow> node list \<Rightarrow> log_entry list" where
  "entries remote k xs =
     concat (map (\<lambda>(j, n). stepEntry n (executeNode remote j n)) (enumerate k xs))"

definition requests :: "(nat \<Rightarrow> request \<Rightarrow> fetch_result) \<Rightarrow> nat \<Rightarrow> node list \<Rightarrow> request list" where
  "requests remote k xs =
     concat (map (\<lambda>(j, n). stepCall (executeNode remote j n)) (enumerate k xs))"

text \<open>The node types for which the loop body has a branch, and those that call a service.\<close>

definition hasBranch :: "node \<Rightarrow> bool" where
  "hasBranch n \<longleftrightarrow>
     nodeType n \<in> set [''Start'', ''End'', ''LLM'', ''Web Scraping'', ''Embedding Generator'',
                        ''Similarity Search'']"

definition isService :: "node \<Rightarrow> bool" where
  "isService n \<longleftrightarrow>
     nodeType n \<in> set [''LLM'', ''Web Scraping'', ''Embedding Generator'', ''Similarity Search'']"

text \<open>A service that cannot be reached: every \<open>fetch\<close> rejects.\<close>

definition offline :: "nat \<Rightarrow> request \<Rightarrow> fetch_result" where
  "offline i req = Threw ''Failed to fetch''"

section \<open>The bounded chain of the specification\<close>

text \<open>
  The node that the traversal loop pushes for a value of \<open>currentNodeId\<close>; \<open>None\<close> where
  the loop is left without a push (\<open>undefined\<close>, the empty id, or no node of that id).
\<close>

definition visit :: "node list \<Rightarrow> string option \<Rightarrow> node option" where
  "visit nodes cur =
     (case cur of
        None \<Rightarrow> None
      | Some cid \<Rightarrow> if cid = [] then None else find (\<lambda>n. node_id n = cid) nodes)"

text \<open>
  The specification's chain: from the current id follow the outgoing edge, hop by hop.
  \<open>chainWithin hops\<close> is \<open>Some\<close> of the nodes passed when the chain reaches an End node
  or dead-ends after at most \<open>hops\<close> hops, and \<open>None\<close> when more hops would be needed.
\<close>

fun chainWithin :: "nat \<Rightarrow> node list \<Rightarrow> (string \<rightharpoonup> string) \<Rightarrow> string option \<Rightarrow> node list option" where
  "chainWithin hops nodes adj cur =
     (case visit nodes cur of
        None \<Rightarrow> Some []
      | Some n \<Rightarrow>
          if nodeType n = ''End'' then Some [n]
          else (case visit nodes (adj (node_id n)) of
                  None \<Rightarrow> Some [n]
                | Some m \<Rightarrow>
                    (case hops of
                       0 \<Rightarrow> None
                     | Suc h \<Rightarrow> map_option ((#) n) (chainWithin h nodes adj (adj (node_id n))))))"

declare chainWithin.simps [simp del]

section \<open>The editing surface\<close>

text \<open>
  The argument of \<open>onConnect\<close>, a \<open>Connection | Edge\<close>: \<open>source\<close> and \<open>target\<close> may be
  \<open>null\<close>, and only an \<open>Edge\<close> carries an id.
\<close>

record connection =
  c_id :: "string option"
  c_source :: "string option"
  c_target :: "string option"
  c_sourceHandle :: "string option"
  c_targetHandle :: "string option"

text \<open>
  \<open>addEdge\<close> of the canvas library (@xyflow/react), with its helpers \<open>getEdgeId\<close> and
  \<open>connectionExists\<close>: a connection without source or target is dropped, an edge that
  lacks an id gets a generated one, a connection that already exists is not added twice,
  and otherwise the edge is appended. The marker and stroke that \<open>onConnect\<close> adds are
  styling and are left out.
\<close>

definition handleText :: "string option \<Rightarrow> string" where
  "handleText h = (case h of None \<Rightarrow> [] | Some t \<Rightarrow> t)"

definition getEdgeId :: "string \<Rightarrow> string option \<Rightarrow> string \<Rightarrow> string option \<Rightarrow> string" where
  "getEdgeId s sh t th = ''xy-edge__'' @ s @ handleText sh @ ''-'' @ t @ handleText th"

definition sameHandle :: "string option \<Rightarrow> string option \<Rightarrow> bool" where
  "sameHandle a b \<longleftrightarrow> a = b \<or> (handleText a = [] \<and> handleText b = [])"

definition connectionExists :: "edge \<Rightarrow> edge list \<Rightarrow> bool" where
  "connectionExists e edges \<longleftrightarrow>
     list_ex (\<lambda>el. source el = source e \<and> target el = target e \<and>
                sameHandle (sourceHandle el) (sourceHandle e) \<and>
                sameHandle (targetHandle el) (targetHandle e)) edges"

definition addEdge :: "connection \<Rightarrow> edge list \<Rightarrow> edge list" where
  "addEdge edgeParams edges =
     (case (c_source edgeParams, c_target edgeParams) of
        (Some s, Some t) \<Rightarrow>
          if s = [] \<or> t = [] then edges
          else (let e = \<lparr>edge_id =
                            (case c_id edgeParams of
                               Some i \<Rightarrow> i
                             | None \<Rightarrow>
                                 getEdgeId s (c_sourceHandle edgeParams) t
                                   (c_targetHandle edgeParams)),
                          source = s, target = t,
                          sourceHandle = c_sourceHandle edgeParams,
                          targetHandle = c_targetHandle edgeParams\<rparr>
                in if connectionExists e edges then edges else edges @ [e])
      | _ \<Rightarrow> edges)"

text \<open>The state update of \<open>onConnect\<close>: the function passed to \<open>setEdges\<close>.\<close>

definition onConnect :: "connection \<Rightarrow> edge list \<Rightarrow> edge list" where
  "onConnect params eds =
     (let filteredEdges = filter (\<lambda>e. Some (source e) \<noteq> c_source params) eds
      in addEdge params filteredEdges)"

text \<open>The invariant of the editing surface: no two edges leave the same node.\<close>

definition atMostOneOutgoing :: "edge list \<Rightarrow> bool" where
  "atMostOneOutgoing eds \<longleftrightarrow> distinct (map source eds)"

section \<open>The component state\<close>

text \<open>
  \<open>getExecutionOrder\<close> once more, statement by statement, as a step on a store: the
  part of the component's state that the flow engine can see (\<open>nodes\<close>, \<open>edges\<close>,
  \<open>logMessages\<close>) and the cells of the three local variables of the function
  (\<open>adjacencyMap\<close>, \<open>executionOrder\<close>, \<open>currentNodeId\<close>). A call finds in the cells
  whatever an earlier call has left there.
\<close>

record store =
  st_nodes :: "node list"
  st_edges :: "edge list"
  st_logMessages :: "log_entry list"
  st_adjacencyMap :: "string \<rightharpoonup> string"
  st_executionOrder :: "node list"
  st_currentNodeId :: "string option"

text \<open>\<open>adjacencyMap.set(edge.source, edge.target)\<close>, the body of the \<open>forEach\<close>.\<close>

definition setAdjacency :: "store \<Rightarrow> edge \<Rightarrow> store" where
  "setAdjacency s e = s\<lparr>st_adjacencyMap := (st_adjacencyMap s)(source e \<mapsto> target e)\<rparr>"

text \<open>The \<open>while (currentNodeId)\<close> loop on the store; \<open>None\<close> where it never leaves.\<close>

partial_function (option) traverse :: "store \<Rightarrow> store option" where
  "traverse s =
     (case st_currentNodeId s of
        None \<Rightarrow> Some s
      | Some cid \<Rightarrow>
          if cid = [] then Some s
          else (case find (\<lambda>n. node_id n = cid) (st_nodes s) of
                  None \<Rightarrow> Some s
                | Some currentNode \<Rightarrow>
                    if nodeType currentNode = ''End''
                    then Some (s\<lparr>st_executionOrder := st_executionOrder s @ [currentNode]\<rparr>)
                    else traverse
                           (s\<lparr>st_executionOrder := st_executionOrder s @ [currentNode],
                              st_currentNodeId := st_adjacencyMap s cid\<rparr>)))"

declare traverse.simps [code]

text \<open>
  The whole function: the two early returns, \<open>new Map()\<close> and the \<open>forEach\<close>, the
  fresh array and the start id, the loop, and the test of the last node. It returns
  its result and the store it leaves.
\<close>

definition resolve :: "store \<Rightarrow> (node list option \<times> store) option" where
  "resolve s =
     (case find (\<lambda>n. nodeType n = ''Start'') (st_nodes s) of
        None \<Rightarrow> Some (None, s)
      | Some startNode \<Rightarrow>
          (case find (\<lambda>n. nodeType n = ''End'') (st_nodes s) of
             None \<Rightarrow> Some (None, s)
           | Some endNode \<Rightarrow>
               (let s1 = foldl setAdjacency (s\<lparr>st_adjacencyMap := Map.empty\<rparr>) (st_edges s);
                    s2 = s1\<lparr>st_executionOrder := [],
                            st_currentNodeId := Some (node_id startNode)\<rparr>
                in case traverse s2 of
                     None \<Rightarrow> None
                   | Some s3 \<Rightarrow>
                       if st_executionOrder s3 = [] \<or>
                          nodeType (last (st_executionOrder s3)) \<noteq> ''End''
                       then Some (None, s3)
                       else Some (Some (st_executionOrder s3), s3))))"

section \<open>Numeric parameters on the server side\<close>

text \<open>
  A JavaScript Number as the routes' parsing can produce it: \<open>NaN\<close>, an infinity, the
  negative zero, or a finite double \<open>Num q\<close> with its exact value \<open>q\<close> (\<open>Num 0\<close> is the
  positive zero). Strings are the UTF-8 bytes of the JavaScript string.
\<close>

datatype jsnum = NaN | PosInfinity | NegInfinity | NegZero | Num rat

text \<open>The number of binary digits of a natural number.\<close>

fun bits :: "nat \<Rightarrow> nat" where
  "bits n = (if n = 0 then 0 else Suc (bits (n div 2)))"

declare bits.simps [simp del]

text \<open>\<open>floorLog2 m\<close> is the \<open>e\<close> with \<open>2^e \<le> m < 2^(e+1)\<close>, for a positive \<open>m\<close>.\<close>

definition floorLog2 :: "rat \<Rightarrow> int" where
  "floorLog2 m =
     (if 1 \<le> m then int (bits (nat \<lfloor>m\<rfloor>)) - 1
      else - int (bits (nat (\<lceil>1 / m\<rceil> - 1))))"

definition pow2 :: "int \<Rightarrow> rat" where
  "pow2 e = (if 0 \<le> e then 2 ^ nat e else 1 / 2 ^ nat (- e))"

definition roundHalfEven :: "rat \<Rightarrow> int" where
  "roundHalfEven x =
     (let f = \<lfloor>x\<rfloor>; d = x - of_int f
      in if d < 1 / 2 then f
         else if 1 / 2 < d then f + 1
         else if even f then f else f + 1)"

text \<open>
  The Number for a sign and a magnitude: the magnitude rounded to the nearest double,
  ties to even, with 53 significant bits down to the exponent \<open>-1022\<close> and steps of
  \<open>2^-1074\<close> below; an infinity from \<open>2^1024\<close> on.
\<close>

definition toNumber :: "bool \<Rightarrow> rat \<Rightarrow> jsnum" where
  "toNumber neg m =
     (if m = 0 then (if neg then NegZero else Num 0)
      else
        (let e = max (floorLog2 m) (- 1022);
             ulp = pow2 (e - 52);
             v = of_int (roundHalfEven (m / ulp)) * ulp
         in if 2 ^ 1024 \<le> v then (if neg then NegInfinity else PosInfinity)
            else if v = 0 then (if neg then NegZero else Num 0)
            else Num (if neg then - v else v)))"

text \<open>
  The length in bytes of the white-space or line-terminator character that a text starts
  with, 0 when it starts with none: TAB, LF, VT, FF, CR, SP, U+00A0, U+1680,
  U+2000 to U+200A, U+2028, U+2029, U+202F, U+205F, U+3000 and U+FEFF.
\<close>

definition whiteLen :: "string \<Rightarrow> nat" where
  "whiteLen s =
     (case s of
        [] \<Rightarrow> 0
      | c # r \<Rightarrow>
          if c \<in> set [CHR 0x09, CHR 0x0A, CHR 0x0B, CHR 0x0C, CHR 0x0D, CHR 0x20] then 1
          else if take 2 s = [CHR 0xC2, CHR 0xA0] then 2
          else if take 3 s = [CHR 0xE1, CHR 0x9A, CHR 0x80] then 3
          else if take 2 s = [CHR 0xE2, CHR 0x80] \<and> length s \<ge> 3 \<and>
                  ((of_char (s ! 2) :: nat) \<in> {0x80..0x8A} \<or>
                   s ! 2 \<in> set [CHR 0xA8, CHR 0xA9, CHR 0xAF]) then 3
          else if take 3 s = [CHR 0xE2, CHR 0x81, CHR 0x9F] then 3
          else if take 3 s = [CHR 0xE3, CHR 0x80, CHR 0x80] then 3
          else if take 3 s = [CHR 0xEF, CHR 0xBB, CHR 0xBF] then 3
          else 0)"

text \<open>The text without the white space it starts with.\<close>

fun trimStart :: "string \<Rightarrow> string" where
  "trimStart [] = []"
| "trimStart (c # r) =
     (if whiteLen (c # r) = 0 then c # r else trimStart (drop (whiteLen (c # r) - 1) r))"

declare trimStart.simps [simp del]

definition digitVal :: "char \<Rightarrow> nat option" where
  "digitVal c =
     (let k = (of_char c :: nat)
      in if 48 \<le> k \<and> k \<le> 57 then Some (k - 48)
         else if 97 \<le> k \<and> k \<le> 102 then Some (k - 87)
         else if 65 \<le> k \<and> k \<le> 70 then Some (k - 55)
         else None)"

definition isDigitOf :: "nat \<Rightarrow> char \<Rightarrow> bool" where
  "isDigitOf R c = (case digitVal c of None \<Rightarrow> False | Some d \<Rightarrow> d < R)"

definition digitsValue :: "nat \<Rightarrow> string \<Rightarrow> nat" where
  "digitsValue R ds = foldl (\<lambda>a c. a * R + (case digitVal c of None \<Rightarrow> 0 | Some d \<Rightarrow> d)) 0 ds"

definition isSign :: "char \<Rightarrow> bool" where
  "isSign c \<longleftrightarrow> c = CHR ''+'' \<or> c = CHR ''-''"

text \<open>The sign and the rest of a text with an optional leading sign.\<close>

definition splitSign :: "string \<Rightarrow> bool \<times> string" where
  "splitSign S =
     (case S of
        [] \<Rightarrow> (False, [])
      | c # r \<Rightarrow> if isSign c then (c = CHR ''-'', r) else (False, S))"

text \<open>
  \<open>parseInt(string)\<close> without a radix: skip white space, take a sign, take a
  \<open>0x\<close>/\<open>0X\<close> prefix as radix 16, read the digits up to the first character that is not
  one; \<open>NaN\<close> when there is no digit, else the Number for the signed value (every
  digit counts: none is dropped before the rounding).
\<close>

definition parseInt :: "string \<Rightarrow> jsnum" where
  "parseInt s =
     (let (neg, S) = splitSign (trimStart s);
          hex = (take 2 S = ''0x'' \<or> take 2 S = ''0X'');
          R = (if hex then 16 else 10);
          Z = takeWhile (isDigitOf R) (if hex then drop 2 S else S)
      in if Z = [] then NaN else toNumber neg (of_nat (digitsValue R Z)))"

text \<open>The exponent part that follows the digits of a decimal literal, 0 when there is none.\<close>

definition exponentOf :: "string \<Rightarrow> int" where
  "exponentOf r =
     (case r of
        [] \<Rightarrow> 0
      | c # r' \<Rightarrow>
          if c = CHR ''e'' \<or> c = CHR ''E''
          then (let (neg, d) = splitSign r'; ds = takeWhile (isDigitOf 10) d
                in if ds = [] then 0
                   else (if neg then - 1 else 1) * int (digitsValue 10 ds))
          else 0)"

text \<open>
  \<open>parseFloat(string)\<close>: skip white space and read the longest prefix that is a decimal
  literal (sign, \<open>Infinity\<close> or digits with an optional fraction and exponent); \<open>NaN\<close>
  when there is none, else the Number for the value of that literal.
\<close>

definition parseFloat :: "string \<Rightarrow> jsnum" where
  "parseFloat s =
     (let (neg, U) = splitSign (trimStart s)
      in if take 8 U = ''Infinity'' then (if neg then NegInfinity else PosInfinity)
         else
           (let ip = takeWhile (isDigitOf 10) U;
                r1 = dropWhile (isDigitOf 10) U;
                dot = (r1 \<noteq> [] \<and> hd r1 = CHR ''.'');
                fp = (if dot then takeWhile (isDigitOf 10) (tl r1) else []);
                r2 = (if dot then dropWhile (isDigitOf 10) (tl r1) else r1);
                e = exponentOf r2;
                m = of_nat (digitsValue 10 (ip @ fp)) / 10 ^ length fp
            in if ip = [] \<and> fp = [] then NaN
               else toNumber neg (if 0 \<le> e then m * 10 ^ nat e else m / 10 ^ nat (- e))))"

text \<open>Truthiness of a Number: \<open>NaN\<close> and the two zeros are falsy.\<close>

definition truthy :: "jsnum \<Rightarrow> bool" where
  "truthy x \<longleftrightarrow> x \<noteq> NaN \<and> x \<noteq> NegZero \<and> x \<noteq> Num 0"

text \<open>
  What a route answers when it returns before it has done its work: the status and the
  \<open>error\<close> and \<open>details\<close> fields of the JSON body (\<open>details\<close> empty when absent).
\<close>

record route_error =
  re_status :: nat
  re_error :: string
  re_details :: string

text \<open>The \<open>generationConfig\<close> that the generation route sends on.\<close>

record generationConfig =
  gc_temperature :: jsnum
  gc_topK :: jsnum
  gc_topP :: jsnum
  gc_maxOutputTokens :: jsnum

text \<open>
  The generation route (POST /api/gemini) from the request body to the
  \<open>generationConfig\<close>, for a body whose fields are texts, as \<open>runFlow\<close> posts it:
  the route answers 400 when \<open>userMessage\<close> is empty and 500 when the environment has
  no \<open>GEMINI_API_KEY\<close> (\<open>None\<close> or empty), and only then parses the three fields,
  \<open>x ? parse(x) : dflt\<close>. The primed names are the fields of the body.
\<close>

definition geminiGenerationConfig ::
  "string option \<Rightarrow> string \<Rightarrow> string \<Rightarrow> string \<Rightarrow> string \<Rightarrow> route_error + generationConfig"
where
  "geminiGenerationConfig apiKey userMessage' temperature' maxOutputTokens' topK' =
     (if userMessage' = []
      then Inl \<lparr>re_status = 400, re_error = ''userMessage is required.'', re_details = []\<rparr>
      else if apiKey = None \<or> apiKey = Some []
      then Inl \<lparr>re_status = 500, re_error = ''GEMINI_API_KEY not configured'', re_details = []\<rparr>
      else
        (let parsedTemperature =
               (if temperature' \<noteq> [] then parseFloat temperature' else toNumber False (7 / 10));
             parsedMaxOutputTokens =
               (if maxOutputTokens' \<noteq> [] then parseInt maxOutputTokens' else Num 1024);
             parsedTopK = (if topK' \<noteq> [] then parseInt topK' else Num 40)
         in Inr \<lparr>gc_temperature = parsedTemperature, gc_topK = parsedTopK,
                 gc_topP = toNumber False (95 / 100),
                 gc_maxOutputTokens = parsedMaxOutputTokens\<rparr>))"

text \<open>
  The search branch of POST /api/pinecone from \<open>query\<close> and \<open>topK\<close> to \<open>topKResults\<close>:
  the route answers 400 when \<open>query\<close> is empty; \<open>getPineconeClient\<close> throws when the
  environment has no \<open>PINECONE_API_KEY\<close>, which the route's \<open>catch\<close> answers with 500;
  then \<open>parseInt(topK) || 5\<close>. The client constructor of the vector-store library is
  taken to return when it is given a key.
\<close>

definition pineconeTopKResults :: "string option \<Rightarrow> string \<Rightarrow> string \<Rightarrow> route_error + jsnum" where
  "pineconeTopKResults apiKey query' topK' =
     (if query' = []
      then Inl \<lparr>re_status = 400, re_error = ''Query is required for similarity search'',
                re_details = []\<rparr>
      else if apiKey = None \<or> apiKey = Some []
      then Inl \<lparr>re_status = 500, re_error = ''Pinecone operation failed'',
                re_details = ''PINECONE_API_KEY is not configured''\<rparr>
      else (let n = parseInt topK' in Inr (if truthy n then n else Num 5)))"

section \<open>Sample graphs\<close>

text \<open>A node as \<open>addNode\<close> creates it, and an edge as the canvas draws it between two nodes.\<close>

definition mkNode :: "string \<Rightarrow> string \<Rightarrow> node" where
  "mkNode i t = \<lparr>node_id = i, nodeType = t, label = t, parameters = []\<rparr>"

definition mkEdge :: "string \<Rightarrow> string \<Rightarrow> edge" where
  "mkEdge s t =
     \<lparr>edge_id = getEdgeId s None t None, source = s, target = t,
      sourceHandle = None, targetHandle = None\<rparr>"

text \<open>A generation service that answers every request with the text \<open>Hello\<close>.\<close>

definition answering :: "nat \<Rightarrow> request \<Rightarrow> fetch_result" where
  "answering i req =
     Response True
       \<lparr>b_output = ''Hello'', b_error = [], b_details = [], b_url = [], b_instruction = [],
        b_data = [], b_id = [], b_dimension = [], b_metadata = [], b_query = [],
        b_resultsCount = [], b_topK = [], b_matches = []\<rparr>"

section \<open>The adjacency map and the traversal loop\<close>

lemma buildAdjacency_Nil: "buildAdjacency [] = Map.empty"
  by (simp add: buildAdjacency_def)

lemma buildAdjacency_snoc:
  "buildAdjacency (es @ [e]) = (buildAdjacency es)(source e \<mapsto> target e)"
  by (simp add: buildAdjacency_def)


lemma buildAdjacency_find_rev:
  "buildAdjacency edges s = map_option target (find (\<lambda>e. source e = s) (rev edges))"
  by (induction edges rule: rev_induct) (simp_all add: buildAdjacency_snoc buildAdjacency_Nil)

lemma find_node_id: "find (\<lambda>n. node_id n = cid) nodes = Some n \<Longrightarrow> node_id n = cid"
  by (auto simp: find_Some_iff)

text \<open>One turn of the loop, seen through \<open>visit\<close>.\<close>

lemma walk_visit:
  "walk nodes adj cur acc =
     (case visit nodes cur of
        None \<Rightarrow> Some acc
      | Some n \<Rightarrow> if nodeType n = ''End'' then Some (acc @ [n])
                  else walk nodes adj (adj (node_id n)) (acc @ [n]))"
  by (subst walk.simps) (auto simp: visit_def split: option.splits dest: find_node_id)

lemma chainWithin_stop:
  assumes "visit nodes cur = None"
  shows "chainWithin h nodes adj cur = Some []"
  using assms by (subst chainWithin.simps) simp

lemma chainWithin_End:
  assumes "visit nodes cur = Some n" "nodeType n = ''End''"
  shows "chainWithin h nodes adj cur = Some [n]"
  using assms by (subst chainWithin.simps) simp

lemma chainWithin_dead_end:
  assumes "visit nodes cur = Some n" "nodeType n \<noteq> ''End''" "visit nodes (adj (node_id n)) = None"
  shows "chainWithin h nodes adj cur = Some [n]"
  using assms by (subst chainWithin.simps) simp

lemma chainWithin_0:
  assumes "visit nodes cur = Some n" "nodeType n \<noteq> ''End''" "visit nodes (adj (node_id n)) = Some m"
  shows "chainWithin 0 nodes adj cur = None"
  using assms by (subst chainWithin.simps) simp

lemma chainWithin_Suc:
  assumes "visit nodes cur = Some n" "nodeType n \<noteq> ''End''" "visit nodes (adj (node_id n)) = Some m"
  shows "chainWithin (Suc h) nodes adj cur = map_option ((#) n) (chainWithin h nodes adj (adj (node_id n)))"
  using assms by (subst chainWithin.simps) simp

lemma walk_stop:
  assumes "visit nodes cur = None"
  shows "walk nodes adj cur acc = Some acc"
  using assms by (subst walk_visit) simp

lemma walk_End:
  assumes "visit nodes cur = Some n" "nodeType n = ''End''"
  shows "walk nodes adj cur acc = Some (acc @ [n])"
  using assms by (subst walk_visit) simp

lemma walk_step:
  assumes "visit nodes cur = Some n" "nodeType n \<noteq> ''End''"
  shows "walk nodes adj cur acc = walk nodes adj (adj (node_id n)) (acc @ [n])"
  using assms by (subst walk_visit) simp

lemma chainWithin_walk:
  "chainWithin h nodes adj cur = Some p \<Longrightarrow> walk nodes adj cur acc = Some (acc @ p)"
proof (induction h arbitrary: cur p acc)
  case 0
  show ?case
  proof (cases "visit nodes cur")
    case None
    with 0 show ?thesis by (simp add: chainWithin_stop walk_stop)
  next
    case (Some n)
    show ?thesis
    proof (cases "nodeType n = ''End''")
      case True
      with Some 0 show ?thesis by (simp add: chainWithin_End walk_End)
    next
      case False
      show ?thesis
      proof (cases "visit nodes (adj (node_id n))")
        case None
        with Some False 0 show ?thesis
          by (simp add: chainWithin_dead_end walk_step walk_stop)
      next
        case (Some m)
        with \<open>visit nodes cur = Some n\<close> False 0 show ?thesis
          by (simp add: chainWithin_0)
      qed
    qed
  qed
next
  case (Suc h)
  show ?case
  proof (cases "visit nodes cur")
    case None
    with Suc.prems show ?thesis by (simp add: chainWithin_stop walk_stop)
  next
    case (Some n)
    show ?thesis
    proof (cases "nodeType n = ''End''")
      case True
      with Some Suc.prems show ?thesis by (simp add: chainWithin_End walk_End)
    next
      case False
      show ?thesis
      proof (cases "visit nodes (adj (node_id n))")
        case None
        with Some False Suc.prems show ?thesis
          by (simp add: chainWithin_dead_end walk_step walk_stop)
      next
        case (Some m)
        with \<open>visit nodes cur = Some n\<close> False Suc.prems
        obtain q where q: "chainWithin h nodes adj (adj (node_id n)) = Some q" and p: "p = n # q"
          by (auto simp: chainWithin_Suc)
        from Suc.IH[OF q, of "acc @ [n]"] p \<open>visit nodes cur = Some n\<close> False
        show ?thesis by (simp add: walk_step)
      qed
    qed
  qed
qed

text \<open>A node that is not an End node and whose edge leads back to itself keeps the loop going.\<close>

lemma walk_self_loop:
  assumes v: "visit nodes (Some c) = Some n" and ne: "nodeType n \<noteq> ''End''"
    and loop: "adj c = Some c"
  shows "walk nodes adj (Some c) acc = None"
proof (cases "walk nodes adj (Some c) acc")
  case None
  then show ?thesis .
next
  case (Some y)
  from v have c: "c \<noteq> []" "find (\<lambda>n. node_id n = c) nodes = Some n"
    by (auto simp: visit_def split: if_splits)
  have "\<not> (nodes = nodes \<and> adj = adj \<and> Some c = Some c)"
    apply (rule walk.raw_induct
        [where P = "\<lambda>ns a cur ac z. \<not> (ns = nodes \<and> a = adj \<and> cur = Some c)", OF _ Some])
    subgoal premises prems for w ns a cur ac z
    proof
      assume eq: "ns = nodes \<and> a = adj \<and> cur = Some c"
      from prems(2) eq c ne loop have "w nodes adj (Some c) (ac @ [n]) = Some z"
        by simp
      from prems(1)[OF this] show False by simp
    qed
    done
  then show ?thesis by simp
qed

section \<open>Validation\<close>

text \<open>
  C1, as the code has it. For every graph that has no Start node or no End node,
  \<open>getExecutionOrder\<close> returns \<open>null\<close> and the run leaves exactly one log entry, the
  diagnostic of the system. (Nothing counts the Start or End nodes: a graph with several
  of them is not rejected for that.)
\<close>

theorem missing_start_or_end_is_not_executable:
  assumes "(\<forall>n\<in>set nodes. nodeType n \<noteq> ''Start'') \<or> (\<forall>n\<in>set nodes. nodeType n \<noteq> ''End'')"
  shows "getExecutionOrder nodes edges = Some None \<and>
         runFlow remote nodes edges =
           Some \<lparr>logMessages = [systemEntry validationMessage], calls = [],
                 phases = [Resolving, Failed]\<rparr>"
proof -
  from assms have "find (\<lambda>n. nodeType n = ''Start'') nodes = None \<or>
                   find (\<lambda>n. nodeType n = ''End'') nodes = None"
    by (auto simp: find_None_iff)
  then have "getExecutionOrder nodes edges = Some None"
    by (auto simp: getExecutionOrder_def split: option.splits)
  then show ?thesis by (simp add: runFlow_def)
qed

theorem missing_start_or_end_is_not_executable_witness:
  "getExecutionOrder [mkNode ''node_0'' ''Start'', mkNode ''node_1'' ''LLM'']
     [mkEdge ''node_0'' ''node_1''] = Some None \<and>
   runFlow offline [mkNode ''node_0'' ''Start'', mkNode ''node_1'' ''LLM'']
     [mkEdge ''node_0'' ''node_1''] =
     Some \<lparr>logMessages = [systemEntry validationMessage], calls = [],
           phases = [Resolving, Failed]\<rparr>"
  using missing_start_or_end_is_not_executable
    [of "[mkNode ''node_0'' ''Start'', mkNode ''node_1'' ''LLM'']"
        "[mkEdge ''node_0'' ''node_1'']" offline]
  by (simp add: mkNode_def)

text \<open>
  C1 as stated fails on a graph with two Start nodes: the first one in the array is
  taken and the walk from it reaches the End node, so an order is returned.
\<close>

theorem two_start_nodes_are_executable:
  "getExecutionOrder
     [mkNode ''node_0'' ''Start'', mkNode ''node_1'' ''Start'', mkNode ''node_2'' ''End'']
     [mkEdge ''node_0'' ''node_2'']
   = Some (Some [mkNode ''node_0'' ''Start'', mkNode ''node_2'' ''End''])"
  by code_simp

text \<open>
  C5, as the code has it. For every graph that has no Start node, or no End node, or
  whose chain of edges from the Start node comes to a stop at a node that is not an End
  node, the run returns with exactly one log entry, the diagnostic attributed to the
  system, sends no request and does not pass through Running.
\<close>

theorem validation_failure_gives_one_diagnostic:
  assumes "(\<forall>n\<in>set nodes. nodeType n \<noteq> ''Start'') \<or> (\<forall>n\<in>set nodes. nodeType n \<noteq> ''End'') \<or>
           (\<exists>startNode h p.
              find (\<lambda>n. nodeType n = ''Start'') nodes = Some startNode \<and>
              chainWithin h nodes (buildAdjacency edges) (Some (node_id startNode)) = Some p \<and>
              (p = [] \<or> nodeType (last p) \<noteq> ''End''))"
  shows "\<exists>r. runFlow remote nodes edges = Some r \<and>
             logMessages r = [systemEntry validationMessage] \<and>
             nodeId (hd (logMessages r)) = ''system'' \<and>
             calls r = [] \<and> Running \<notin> set (phases r)"
proof -
  consider (noStart) "\<forall>n\<in>set nodes. nodeType n \<noteq> ''Start''"
    | (noEnd) "\<forall>n\<in>set nodes. nodeType n \<noteq> ''End''"
    | (deadEnd) startNode h p where
        "find (\<lambda>n. nodeType n = ''Start'') nodes = Some startNode"
        "chainWithin h nodes (buildAdjacency edges) (Some (node_id startNode)) = Some p"
        "p = [] \<or> nodeType (last p) \<noteq> ''End''"
    using assms by blast
  then have "getExecutionOrder nodes edges = Some None"
  proof cases
    case noStart
    then have "find (\<lambda>n. nodeType n = ''Start'') nodes = None"
      by (auto simp: find_None_iff)
    then show ?thesis by (simp add: getExecutionOrder_def)
  next
    case noEnd
    then have "find (\<lambda>n. nodeType n = ''End'') nodes = None"
      by (auto simp: find_None_iff)
    then show ?thesis by (simp add: getExecutionOrder_def split: option.splits)
  next
    case deadEnd
    from chainWithin_walk[OF deadEnd(2), of "[]"]
    have "walk nodes (buildAdjacency edges) (Some (node_id startNode)) [] = Some p"
      by simp
    with deadEnd(1,3) show ?thesis
      by (cases "find (\<lambda>n. nodeType n = ''End'') nodes") (auto simp: getExecutionOrder_def)
  qed
  then show ?thesis
    by (simp add: runFlow_def systemEntry_def)
qed

theorem validation_failure_gives_one_diagnostic_witness:
  "\<exists>r. runFlow offline
          [mkNode ''node_0'' ''Start'', mkNode ''node_1'' ''LLM'', mkNode ''node_2'' ''End'']
          [mkEdge ''node_0'' ''node_1''] = Some r \<and>
       logMessages r = [systemEntry validationMessage] \<and>
       nodeId (hd (logMessages r)) = ''system'' \<and>
       calls r = [] \<and> Running \<notin> set (phases r)"
proof -
  have c: "chainWithin 1
          [mkNode ''node_0'' ''Start'', mkNode ''node_1'' ''LLM'', mkNode ''node_2'' ''End'']
          (buildAdjacency [mkEdge ''node_0'' ''node_1''])
          (Some (node_id (mkNode ''node_0'' ''Start'')))
        = Some [mkNode ''node_0'' ''Start'', mkNode ''node_1'' ''LLM'']"
    apply (subst chainWithin.simps)
    apply (simp add: visit_def mkNode_def mkEdge_def buildAdjacency_def)
    apply (subst chainWithin.simps)
    apply (simp add: visit_def mkNode_def mkEdge_def buildAdjacency_def)
    done
  have f: "find (\<lambda>n. nodeType n = ''Start'')
          [mkNode ''node_0'' ''Start'', mkNode ''node_1'' ''LLM'', mkNode ''node_2'' ''End'']
        = Some (mkNode ''node_0'' ''Start'')"
    by (simp add: mkNode_def)
  have l: "nodeType (last [mkNode ''node_0'' ''Start'', mkNode ''node_1'' ''LLM'']) \<noteq> ''End''"
    by (simp add: mkNode_def)
  show ?thesis
    apply (rule validation_failure_gives_one_diagnostic)
    apply (rule disjI2)
    apply (rule disjI2)
    apply (rule exI[of _ "mkNode ''node_0'' ''Start''"])
    apply (rule exI[of _ 1])
    apply (rule exI[of _ "[mkNode ''node_0'' ''Start'', mkNode ''node_1'' ''LLM'']"])
    apply (intro conjI)
      apply (rule f)
     apply (rule c)
    apply (rule disjI2)
    apply (rule l)
    done
qed

text \<open>
  C5 as stated fails where the chain from the Start node runs into a cycle: the graph
  has no path from Start to End, the traversal loop never leaves, and the run neither
  returns nor writes the diagnostic.
\<close>

theorem cycle_gives_no_diagnostic:
  "runFlow offline
     [mkNode ''node_0'' ''Start'', mkNode ''node_1'' ''Input'', mkNode ''node_2'' ''End'']
     [mkEdge ''node_0'' ''node_1'', mkEdge ''node_1'' ''node_1''] = None"
proof -
  let ?ns = "[mkNode ''node_0'' ''Start'', mkNode ''node_1'' ''Input'', mkNode ''node_2'' ''End'']"
  let ?adj = "buildAdjacency [mkEdge ''node_0'' ''node_1'', mkEdge ''node_1'' ''node_1'']"
  have adj0: "?adj ''node_0'' = Some ''node_1''" and adj1: "?adj ''node_1'' = Some ''node_1''"
    by (simp_all add: buildAdjacency_def mkEdge_def)
  have "walk ?ns ?adj (Some ''node_1'') acc = None" for acc
    by (rule walk_self_loop[of _ _ "mkNode ''node_1'' ''Input''"])
       (simp_all add: visit_def mkNode_def adj1)
  then have "walk ?ns ?adj (Some ''node_0'') [] = None"
    by (subst walk.simps) (simp add: mkNode_def adj0)
  then show ?thesis
    by (simp add: runFlow_def getExecutionOrder_def mkNode_def)
qed

section \<open>Termination of the traversal\<close>

lemma visit_Some_cur: "visit nodes cur = Some n \<Longrightarrow> cur = Some (node_id n)"
  by (auto simp: visit_def split: option.splits if_splits dest: find_node_id)

lemma visit_Some_mem: "visit nodes cur = Some n \<Longrightarrow> n \<in> set nodes"
  by (auto simp: visit_def find_Some_iff split: option.splits if_splits)

text \<open>The shape of a chain result: its head is the node visited first, its tail the chain
  from that node's successor.\<close>

lemma chainWithin_Cons:
  assumes "chainWithin h nodes adj cur = Some (n # q)"
  shows "visit nodes cur = Some n \<and>
         (q \<noteq> [] \<longrightarrow> (\<exists>h'. chainWithin h' nodes adj (adj (node_id n)) = Some q))"
proof (cases "visit nodes cur")
  case None
  with assms show ?thesis by (simp add: chainWithin_stop)
next
  case (Some n')
  note v = this
  show ?thesis
  proof (cases "nodeType n' = ''End''")
    case True
    with v assms show ?thesis by (simp add: chainWithin_End)
  next
    case False
    note ne = this
    show ?thesis
    proof (cases "visit nodes (adj (node_id n'))")
      case None
      with v ne assms show ?thesis by (simp add: chainWithin_dead_end)
    next
      case (Some m)
      note m = this
      show ?thesis
      proof (cases h)
        case 0
        with chainWithin_0[where adj = adj, OF v ne m] assms show ?thesis by simp
      next
        case (Suc h')
        have e: "chainWithin h nodes adj cur =
                 map_option ((#) n') (chainWithin h' nodes adj (adj (node_id n')))"
          unfolding Suc by (rule chainWithin_Suc[where adj = adj and h = h', OF v ne m])
        from assms[unfolded e]
        have "n' = n" and "chainWithin h' nodes adj (adj (node_id n)) = Some q"
          by auto
        with v show ?thesis by blast
      qed
    qed
  qed
qed

lemma chainWithin_subset:
  "chainWithin h nodes adj cur = Some p \<Longrightarrow> set p \<subseteq> set nodes"
proof (induction p arbitrary: h cur)
  case Nil
  then show ?case by simp
next
  case (Cons n q)
  from chainWithin_Cons[OF Cons.prems]
  have v: "visit nodes cur = Some n"
    and t: "q \<noteq> [] \<longrightarrow> (\<exists>h'. chainWithin h' nodes adj (adj (node_id n)) = Some q)"
    by simp_all
  have "set q \<subseteq> set nodes"
  proof (cases "q = []")
    case True
    then show ?thesis by simp
  next
    case False
    with t obtain h' where "chainWithin h' nodes adj (adj (node_id n)) = Some q" by blast
    then show ?thesis by (rule Cons.IH)
  qed
  with visit_Some_mem[OF v] show ?case by simp
qed

lemma chainWithin_suffix:
  "chainWithin h nodes adj cur = Some (xs @ m # ys) \<Longrightarrow>
   \<exists>h'. chainWithin h' nodes adj (Some (node_id m)) = Some (m # ys)"
proof (induction xs arbitrary: h cur)
  case Nil
  then have c: "chainWithin h nodes adj cur = Some (m # ys)" by simp
  from chainWithin_Cons[OF c] have "visit nodes cur = Some m" by simp
  then have "cur = Some (node_id m)" by (rule visit_Some_cur)
  with c show ?case by blast
next
  case (Cons x xs)
  then have c: "chainWithin h nodes adj cur = Some (x # (xs @ m # ys))" by simp
  from chainWithin_Cons[OF c]
  obtain h' where "chainWithin h' nodes adj (adj (node_id x)) = Some (xs @ m # ys)"
    by auto
  then show ?case by (rule Cons.IH)
qed

lemma chainWithin_unique:
  assumes "chainWithin h nodes adj cur = Some p" "chainWithin h' nodes adj cur = Some q"
  shows "p = q"
  using chainWithin_walk[OF assms(1), of "[]"] chainWithin_walk[OF assms(2), of "[]"]
  by simp

lemma chainWithin_distinct:
  "chainWithin h nodes adj cur = Some p \<Longrightarrow> distinct (map node_id p)"
proof (induction p arbitrary: h cur)
  case Nil
  then show ?case by simp
next
  case (Cons n q)
  from chainWithin_Cons[OF Cons.prems]
  have v: "visit nodes cur = Some n"
    and t: "q \<noteq> [] \<longrightarrow> (\<exists>h'. chainWithin h' nodes adj (adj (node_id n)) = Some q)"
    by simp_all
  have dq: "distinct (map node_id q)"
  proof (cases "q = []")
    case True
    then show ?thesis by simp
  next
    case False
    with t obtain h' where "chainWithin h' nodes adj (adj (node_id n)) = Some q" by blast
    then show ?thesis by (rule Cons.IH)
  qed
  have "node_id n \<notin> node_id ` set q"
  proof
    assume "node_id n \<in> node_id ` set q"
    then obtain m where m: "m \<in> set q" "node_id m = node_id n" by auto
    then obtain ys zs where q: "q = ys @ m # zs" by (auto simp: in_set_conv_decomp)
    with Cons.prems have "chainWithin h nodes adj cur = Some ((n # ys) @ m # zs)" by simp
    from chainWithin_suffix[OF this]
    obtain h' where "chainWithin h' nodes adj (Some (node_id m)) = Some (m # zs)" by blast
    with m(2) visit_Some_cur[OF v]
    have "chainWithin h' nodes adj cur = Some (m # zs)" by simp
    from chainWithin_unique[OF Cons.prems this] q show False by simp
  qed
  with dq show ?case by simp
qed

lemma chainWithin_length:
  assumes "chainWithin h nodes adj cur = Some p"
  shows "length p \<le> length nodes"
proof -
  from chainWithin_distinct[OF assms] have "distinct p" by (rule distinct_map[THEN iffD1, THEN conjunct1])
  then have "length p = card (set p)" by (simp add: distinct_card)
  also have "\<dots> \<le> card (set nodes)"
    by (rule card_mono) (simp_all add: chainWithin_subset[OF assms])
  also have "\<dots> \<le> length nodes" by (rule card_length)
  finally show ?thesis .
qed

text \<open>
  C6. Where the chain of outgoing edges from the Start node reaches an End node or
  dead-ends within \<open>|nodes|\<close> hops, the traversal loop leaves with exactly the nodes of
  that chain, \<open>getExecutionOrder\<close> returns, and the loop has pushed at most \<open>|nodes|\<close>
  nodes. That no node is visited twice need not be assumed: it holds of every chain that
  comes to a stop.
\<close>

theorem bounded_chain_terminates:
  assumes "find (\<lambda>n. nodeType n = ''Start'') nodes = Some startNode"
    and "chainWithin (length nodes) nodes (buildAdjacency edges) (Some (node_id startNode)) = Some p"
  shows "walk nodes (buildAdjacency edges) (Some (node_id startNode)) [] = Some p \<and>
         distinct (map node_id p) \<and> length p \<le> length nodes \<and>
         (\<exists>r. getExecutionOrder nodes edges = Some r)"
proof -
  from chainWithin_walk[OF assms(2), of "[]"]
  have w: "walk nodes (buildAdjacency edges) (Some (node_id startNode)) [] = Some p" by simp
  with assms(1) have "\<exists>r. getExecutionOrder nodes edges = Some r"
    by (cases "find (\<lambda>n. nodeType n = ''End'') nodes") (simp_all add: getExecutionOrder_def)
  with w chainWithin_distinct[OF assms(2)] chainWithin_length[OF assms(2)]
  show ?thesis by blast
qed

theorem bounded_chain_terminates_witness:
  "walk [mkNode ''node_0'' ''Start'', mkNode ''node_1'' ''LLM'', mkNode ''node_2'' ''End'']
     (buildAdjacency [mkEdge ''node_0'' ''node_1'', mkEdge ''node_1'' ''node_2''])
     (Some (node_id (mkNode ''node_0'' ''Start''))) []
   = Some [mkNode ''node_0'' ''Start'', mkNode ''node_1'' ''LLM'', mkNode ''node_2'' ''End''] \<and>
   distinct (map node_id
     [mkNode ''node_0'' ''Start'', mkNode ''node_1'' ''LLM'', mkNode ''node_2'' ''End'']) \<and>
   length [mkNode ''node_0'' ''Start'', mkNode ''node_1'' ''LLM'', mkNode ''node_2'' ''End'']
     \<le> length [mkNode ''node_0'' ''Start'', mkNode ''node_1'' ''LLM'', mkNode ''node_2'' ''End''] \<and>
   (\<exists>r. getExecutionOrder
          [mkNode ''node_0'' ''Start'', mkNode ''node_1'' ''LLM'', mkNode ''node_2'' ''End'']
          [mkEdge ''node_0'' ''node_1'', mkEdge ''node_1'' ''node_2''] = Some r)"
proof -
  have f: "find (\<lambda>n. nodeType n = ''Start'')
             [mkNode ''node_0'' ''Start'', mkNode ''node_1'' ''LLM'', mkNode ''node_2'' ''End'']
           = Some (mkNode ''node_0'' ''Start'')"
    by (simp add: mkNode_def)
  have c: "chainWithin
       (length [mkNode ''node_0'' ''Start'', mkNode ''node_1'' ''LLM'', mkNode ''node_2'' ''End''])
       [mkNode ''node_0'' ''Start'', mkNode ''node_1'' ''LLM'', mkNode ''node_2'' ''End'']
       (buildAdjacency [mkEdge ''node_0'' ''node_1'', mkEdge ''node_1'' ''node_2''])
       (Some (node_id (mkNode ''node_0'' ''Start'')))
     = Some [mkNode ''node_0'' ''Start'', mkNode ''node_1'' ''LLM'', mkNode ''node_2'' ''End'']"
    by code_simp
  from bounded_chain_terminates[OF f c] show ?thesis .
qed

section \<open>The order that is returned\<close>

lemma find_distinct_id:
  "distinct (map f xs) \<Longrightarrow> x \<in> set xs \<Longrightarrow> find (\<lambda>y. f y = f x) xs = Some x"
  by (induction xs) (auto simp: image_iff)

lemma find_Some_mem: "find P xs = Some x \<Longrightarrow> x \<in> set xs \<and> P x"
  by (induction xs) (auto split: if_splits)

lemma buildAdjacency_unique_target:
  assumes "\<exists>e\<in>set edges. source e = s"
    and "\<forall>e\<in>set edges. source e = s \<longrightarrow> target e = t"
  shows "buildAdjacency edges s = Some t"
proof -
  from assms(1) have "find (\<lambda>e. source e = s) (rev edges) \<noteq> None"
    by (auto simp: find_None_iff)
  then obtain e where e: "find (\<lambda>e. source e = s) (rev edges) = Some e" by auto
  from find_Some_mem[OF this] have "e \<in> set edges" "source e = s"
    by simp_all
  with assms(2) e show ?thesis by (simp add: buildAdjacency_find_rev)
qed

lemma walk_along_path:
  assumes "p \<noteq> []"
    and "\<forall>n\<in>set p. visit nodes (Some (node_id n)) = Some n"
    and "nodeType (last p) = ''End''"
    and "\<forall>n\<in>set (butlast p). nodeType n \<noteq> ''End''"
    and "\<forall>i. Suc i < length p \<longrightarrow> adj (node_id (p ! i)) = Some (node_id (p ! Suc i))"
  shows "walk nodes adj (Some (node_id (hd p))) acc = Some (acc @ p)"
  using assms
proof (induction p arbitrary: acc)
  case Nil
  then show ?case by simp
next
  case (Cons n q)
  from Cons.prems(2) have v: "visit nodes (Some (node_id n)) = Some n" by simp
  show ?case
  proof (cases "q = []")
    case True
    with Cons.prems(3) v show ?thesis by (simp add: walk_End)
  next
    case False
    with Cons.prems(4) have ne: "nodeType n \<noteq> ''End''" by simp
    from False Cons.prems(5) have a: "adj (node_id n) = Some (node_id (hd q))"
      by (cases q) auto
    have "walk nodes adj (Some (node_id (hd q))) (acc @ [n]) = Some ((acc @ [n]) @ q)"
    proof (rule Cons.IH[OF False])
      show "\<forall>n\<in>set q. visit nodes (Some (node_id n)) = Some n"
        using Cons.prems(2) by simp
      show "nodeType (last q) = ''End''" using Cons.prems(3) False by simp
      show "\<forall>n\<in>set (butlast q). nodeType n \<noteq> ''End''" using Cons.prems(4) False by simp
      show "\<forall>i. Suc i < length q \<longrightarrow> adj (node_id (q ! i)) = Some (node_id (q ! Suc i))"
      proof (intro allI impI)
        fix i assume "Suc i < length q"
        with Cons.prems(5)[rule_format, of "Suc i"] show "adj (node_id (q ! i)) = Some (node_id (q ! Suc i))"
          by simp
      qed
    qed
    with v ne a show ?thesis by (simp add: walk_step)
  qed
qed

text \<open>
  C3, as the code has it. Let the node ids be unique, and let \<open>p\<close> be a path of nodes of
  the graph with non-empty ids that starts at the Start node the resolver picks, ends at
  an End node without passing one before, and in which every node but the last has an
  outgoing edge and all its outgoing edges lead to the next node of the path. Then
  \<open>getExecutionOrder\<close> returns exactly \<open>p\<close>, its \<open>k + 1\<close> nodes in path order, whatever
  other nodes and edges the graph holds; nodes off the path are not in the result.
\<close>

theorem path_from_start_to_end_is_returned:
  assumes ids: "distinct (map node_id nodes)"
    and nonempty: "\<forall>n\<in>set p. node_id n \<noteq> []"
    and p: "p \<noteq> []" "set p \<subseteq> set nodes"
    and start: "find (\<lambda>n. nodeType n = ''Start'') nodes = Some (hd p)"
    and last: "nodeType (last p) = ''End''"
    and inner: "\<forall>n\<in>set (butlast p). nodeType n \<noteq> ''End''"
    and hops: "\<forall>i. Suc i < length p \<longrightarrow>
                 (\<exists>e\<in>set edges. source e = node_id (p ! i)) \<and>
                 (\<forall>e\<in>set edges. source e = node_id (p ! i) \<longrightarrow> target e = node_id (p ! Suc i))"
  shows "getExecutionOrder nodes edges = Some (Some p)"
proof -
  have v: "\<forall>n\<in>set p. visit nodes (Some (node_id n)) = Some n"
  proof
    fix n assume n: "n \<in> set p"
    with p(2) have "n \<in> set nodes" by auto
    from find_distinct_id[OF ids this] n nonempty show "visit nodes (Some (node_id n)) = Some n"
      by (simp add: visit_def)
  qed
  have a: "\<forall>i. Suc i < length p \<longrightarrow>
             buildAdjacency edges (node_id (p ! i)) = Some (node_id (p ! Suc i))"
    using hops by (auto intro!: buildAdjacency_unique_target)
  from walk_along_path[OF p(1) v last inner a, of "[]"]
  have w: "walk nodes (buildAdjacency edges) (Some (node_id (hd p))) [] = Some p" by simp
  from p have "last p \<in> set nodes" by auto
  with last have "find (\<lambda>n. nodeType n = ''End'') nodes \<noteq> None"
    by (auto simp: find_None_iff)
  with start w p(1) last show ?thesis
    by (auto simp: getExecutionOrder_def)
qed

theorem path_from_start_to_end_is_returned_witness:
  "getExecutionOrder
     [mkNode ''node_0'' ''Start'', mkNode ''node_3'' ''Input'', mkNode ''node_1'' ''LLM'',
      mkNode ''node_2'' ''End'']
     [mkEdge ''node_3'' ''node_3'', mkEdge ''node_0'' ''node_1'', mkEdge ''node_1'' ''node_2'']
   = Some (Some [mkNode ''node_0'' ''Start'', mkNode ''node_1'' ''LLM'', mkNode ''node_2'' ''End''])"
proof -
  let ?p = "[mkNode ''node_0'' ''Start'', mkNode ''node_1'' ''LLM'', mkNode ''node_2'' ''End'']"
  let ?es = "[mkEdge ''node_3'' ''node_3'', mkEdge ''node_0'' ''node_1'',
              mkEdge ''node_1'' ''node_2'']"
  have hops: "\<forall>i. Suc i < length ?p \<longrightarrow>
                 (\<exists>e\<in>set ?es. source e = node_id (?p ! i)) \<and>
                 (\<forall>e\<in>set ?es. source e = node_id (?p ! i) \<longrightarrow> target e = node_id (?p ! Suc i))"
  proof (intro allI impI)
    fix i assume "Suc i < length ?p"
    then have "i = 0 \<or> i = 1" by auto
    then show "(\<exists>e\<in>set ?es. source e = node_id (?p ! i)) \<and>
               (\<forall>e\<in>set ?es. source e = node_id (?p ! i) \<longrightarrow> target e = node_id (?p ! Suc i))"
      by (auto simp: mkNode_def mkEdge_def)
  qed
  show ?thesis
    by (rule path_from_start_to_end_is_returned[OF _ _ _ _ _ _ _ hops])
       (simp_all add: mkNode_def)
qed

text \<open>
  C3 as stated fails where a node on the path has the empty string as its id: the loop
  test \<open>while (currentNodeId)\<close> is false for it. Here the Start node has one outgoing
  edge, to the End node, and yet no order is returned.
\<close>

theorem empty_id_stops_the_walk:
  "getExecutionOrder [mkNode [] ''Start'', mkNode ''node_1'' ''End''] [mkEdge [] ''node_1'']
     = Some None"
  by code_simp

section \<open>The run loop\<close>

lemma runNodes_Nil: "runNodes remote k [] st = st\<lparr>phases := phases st @ [Completed]\<rparr>"
  by (simp add: runNodes.simps)

lemma stepEntry_length:
  "length (stepEntry n (executeNode remote i n)) = (if hasBranch n then 1 else 0)"
  by (simp add: stepEntry_def executeNode_def hasBranch_def Let_def split: prod.splits)

lemma stepEntry_ids:
  "map nodeId (stepEntry n (executeNode remote i n)) = (if hasBranch n then [node_id n] else [])"
  by (simp add: stepEntry_def executeNode_def hasBranch_def logEntry_def Let_def split: prod.splits)

lemma stepCall_length:
  "length (stepCall (executeNode remote i n)) = (if isService n then 1 else 0)"
  by (simp add: stepCall_def executeNode_def isService_def Let_def split: prod.splits)

lemma entries_Nil: "entries remote k [] = []"
  by (simp add: entries_def)

lemma entries_Cons:
  "entries remote k (n # xs) = stepEntry n (executeNode remote k n) @ entries remote (Suc k) xs"
  by (simp add: entries_def)

lemma requests_Nil: "requests remote k [] = []"
  by (simp add: requests_def)

lemma requests_Cons:
  "requests remote k (n # xs) = stepCall (executeNode remote k n) @ requests remote (Suc k) xs"
  by (simp add: requests_def)

lemma entries_append:
  "entries remote k (xs @ ys) = entries remote k xs @ entries remote (k + length xs) ys"
  by (induction xs arbitrary: k) (simp_all add: entries_Nil entries_Cons)

lemma requests_append:
  "requests remote k (xs @ ys) = requests remote k xs @ requests remote (k + length xs) ys"
  by (induction xs arbitrary: k) (simp_all add: requests_Nil requests_Cons)

lemma entries_length: "length (entries remote k xs) = length (filter hasBranch xs)"
  by (induction xs arbitrary: k) (simp_all add: entries_Nil entries_Cons stepEntry_length)

lemma entries_ids: "map nodeId (entries remote k xs) = map node_id (filter hasBranch xs)"
  by (induction xs arbitrary: k) (simp_all add: entries_Nil entries_Cons stepEntry_ids)

lemma requests_length: "length (requests remote k xs) = length (filter isService xs)"
  by (induction xs arbitrary: k) (simp_all add: requests_Nil requests_Cons stepCall_length)

lemma runNodes_step:
  assumes "\<not> halts remote k n"
  shows "runNodes remote k (n # rest) st =
         runNodes remote (Suc k) rest
           (st\<lparr>logMessages := logMessages st @ stepEntry n (executeNode remote k n),
               calls := calls st @ stepCall (executeNode remote k n)\<rparr>)"
  using assms
  by (cases "executeNode remote k n")
     (simp_all add: runNodes.simps halts_def stepEntry_def stepCall_def Let_def)

lemma runNodes_halt:
  assumes "halts remote k n"
  shows "runNodes remote k (n # rest) st =
         st\<lparr>logMessages := logMessages st @ stepEntry n (executeNode remote k n),
            calls := calls st @ stepCall (executeNode remote k n),
            phases := phases st @ [Failed]\<rparr>"
  using assms
  by (cases "executeNode remote k n")
     (simp_all add: runNodes.simps halts_def stepEntry_def stepCall_def Let_def)

lemma runNodes_prefix:
  assumes "\<forall>j<length xs. \<not> halts remote (k + j) (xs ! j)"
  shows "runNodes remote k (xs @ ys) st =
         runNodes remote (k + length xs) ys
           (st\<lparr>logMessages := logMessages st @ entries remote k xs,
               calls := calls st @ requests remote k xs\<rparr>)"
  using assms
proof (induction xs arbitrary: k st)
  case Nil
  then show ?case by (simp add: entries_Nil requests_Nil)
next
  case (Cons n xs)
  from Cons.prems have h0: "\<not> halts remote k n" by force
  have rest: "\<forall>j<length xs. \<not> halts remote (Suc k + j) (xs ! j)"
  proof (intro allI impI)
    fix j assume "j < length xs"
    with Cons.prems[rule_format, of "Suc j"] show "\<not> halts remote (Suc k + j) (xs ! j)" by simp
  qed
  show ?case
    by (simp add: runNodes_step[OF h0] Cons.IH[OF rest] entries_Cons requests_Cons)
qed


lemma halts_hasBranch: "halts remote k n \<Longrightarrow> hasBranch n \<and> isService n"
  by (auto simp: halts_def executeNode_def hasBranch_def isService_def Let_def
           split: if_splits step.splits)

text \<open>
  C4, as the code has it. When the node at position \<open>i\<close> of the resolved order fails and
  none before it does, the run ends in Failed; its log is the start entry followed by the
  entries of the nodes at positions \<open>0..i\<close>, where a node has one entry if the loop has a
  branch for its type and none otherwise, the last entry being that of the failing node;
  the requests sent are those of the nodes at positions \<open>0..i\<close>. So the log has
  \<open>2 + b\<close> entries, \<open>b\<close> the number of nodes before \<open>i\<close> whose type has a branch, which
  is \<open>i + 2\<close> when all of them have one; nothing is logged or sent for a later node.
\<close>

theorem first_failure_stops_the_run:
  assumes order: "getExecutionOrder nodes edges = Some (Some order)"
    and i: "i < length order"
    and fails: "halts remote i (order ! i)"
    and before: "\<forall>j<i. \<not> halts remote j (order ! j)"
  shows "\<exists>r. runFlow remote nodes edges = Some r \<and>
           phases r = [Resolving, Running, Failed] \<and>
           logMessages r =
             systemEntry (startedMessage (length order)) # entries remote 0 (take (Suc i) order) \<and>
           calls r = requests remote 0 (take (Suc i) order) \<and>
           nodeId (last (logMessages r)) = node_id (order ! i) \<and>
           length (logMessages r) = 2 + length (filter hasBranch (take i order)) \<and>
           length (calls r) = length (filter isService (take (Suc i) order)) \<and>
           ((\<forall>n\<in>set (take i order). hasBranch n) \<longrightarrow> length (logMessages r) = i + 2)"
proof -
  define pre where "pre = take i order"
  define n where "n = order ! i"
  define post where "post = drop (Suc i) order"
  define st where "st = \<lparr>logMessages = [systemEntry (startedMessage (length order))],
              calls = [], phases = [Resolving, Running]\<rparr>"
  from i have split: "order = pre @ n # post"
    by (simp add: pre_def n_def post_def id_take_nth_drop)
  from i have len: "length pre = i" by (simp add: pre_def)
  from i have tk: "take (Suc i) order = pre @ [n]"
    by (simp add: pre_def n_def take_Suc_conv_app_nth)
  have pre: "\<forall>j<length pre. \<not> halts remote (0 + j) (pre ! j)"
    using before by (simp add: pre_def)
  from fails have hn: "halts remote (length pre) n" by (simp add: len n_def)
  have "runNodes remote 0 order st = runNodes remote 0 (pre @ n # post) st"
    using split by simp
  also have "\<dots> = runNodes remote (length pre) (n # post)
                    (st\<lparr>logMessages := logMessages st @ entries remote 0 pre,
                        calls := calls st @ requests remote 0 pre\<rparr>)"
    using runNodes_prefix[OF pre, of "n # post" st] by simp
  also have "\<dots> = \<lparr>logMessages = systemEntry (startedMessage (length order)) #
                                 entries remote 0 (pre @ [n]),
                 calls = requests remote 0 (pre @ [n]),
                 phases = [Resolving, Running, Failed]\<rparr>"
    by (simp add: runNodes_halt[OF hn] st_def entries_append requests_append
                  entries_Cons entries_Nil requests_Cons requests_Nil)
  finally have run: "runNodes remote 0 order st =
      \<lparr>logMessages = systemEntry (startedMessage (length order)) # entries remote 0 (pre @ [n]),
       calls = requests remote 0 (pre @ [n]),
       phases = [Resolving, Running, Failed]\<rparr>" .
  from halts_hasBranch[OF hn] have hb: "hasBranch n" "isService n" by simp_all
  have "length (stepEntry n (executeNode remote (length pre) n)) = 1"
       "map nodeId (stepEntry n (executeNode remote (length pre) n)) = [node_id n]"
    using hb by (simp_all add: stepEntry_length stepEntry_ids)
  then obtain e where e: "stepEntry n (executeNode remote (length pre) n) = [e]"
      "nodeId e = node_id n"
    by (cases "stepEntry n (executeNode remote (length pre) n)") auto
  then have ent: "entries remote 0 (pre @ [n]) = entries remote 0 pre @ [e]"
    by (simp add: entries_append entries_Cons entries_Nil)
  have all: "(\<forall>m\<in>set pre. hasBranch m) \<longrightarrow> length (filter hasBranch pre) = i"
    using len by (auto simp: filter_id_conv)
  have "runFlow remote nodes edges = Some (runNodes remote 0 order st)"
    using order by (simp add: runFlow_def st_def)
  with run ent e(2) all hb show ?thesis
    unfolding tk pre_def[symmetric] n_def[symmetric]
    by (simp add: entries_length requests_length)
qed

theorem first_failure_stops_the_run_witness:
  "\<exists>r. runFlow offline
          [mkNode ''node_0'' ''Start'', mkNode ''node_1'' ''LLM'', mkNode ''node_2'' ''End'']
          [mkEdge ''node_0'' ''node_1'', mkEdge ''node_1'' ''node_2''] = Some r \<and>
       phases r = [Resolving, Running, Failed] \<and>
       nodeId (last (logMessages r)) = ''node_1'' \<and>
       length (logMessages r) = 1 + 2 \<and>
       length (calls r) = 1"
proof -
  let ?order = "[mkNode ''node_0'' ''Start'', mkNode ''node_1'' ''LLM'', mkNode ''node_2'' ''End'']"
  have h1: "getExecutionOrder ?order [mkEdge ''node_0'' ''node_1'', mkEdge ''node_1'' ''node_2'']
              = Some (Some ?order)"
    by code_simp
  have h2: "1 < length ?order" by simp
  have h3: "halts offline 1 (?order ! 1)"
    by (simp add: halts_def executeNode_def mkNode_def offline_def llmResult_def)
  have h4: "\<forall>j<1. \<not> halts offline j (?order ! j)"
    by (simp add: halts_def executeNode_def mkNode_def)
  have f: "hasBranch (mkNode ''node_0'' ''Start'')" "\<not> isService (mkNode ''node_0'' ''Start'')"
    "isService (mkNode ''node_1'' ''LLM'')" "node_id (mkNode ''node_1'' ''LLM'') = ''node_1''"
    by (simp_all add: hasBranch_def isService_def mkNode_def)
  from first_failure_stops_the_run[OF h1 h2 h3 h4]
  show ?thesis
    apply (elim exE conjE)
    subgoal for r
      apply (rule exI[of _ r])
      apply (simp add: f)
      done
    done
qed

text \<open>
  C4 as stated fails when a node before the failing one has a type without a branch:
  in Start, Input, LLM, End with the generation service unreachable, the node at
  position 2 fails and the log has 3 entries, not 4.
\<close>

theorem skipped_node_shortens_the_log:
  "halts offline 2 (mkNode ''node_2'' ''LLM'') \<and>
   runFlow offline
     [mkNode ''node_0'' ''Start'', mkNode ''node_1'' ''Input'', mkNode ''node_2'' ''LLM'',
      mkNode ''node_3'' ''End'']
     [mkEdge ''node_0'' ''node_1'', mkEdge ''node_1'' ''node_2'', mkEdge ''node_2'' ''node_3'']
   = Some \<lparr>logMessages =
             [systemEntry (startedMessage 4),
              logEntry (mkNode ''node_0'' ''Start'') (playMark @ '' Starting flow execution...''),
              logEntry (mkNode ''node_2'' ''LLM'') ''Error: Failed to fetch''],
           calls = [llmRequest (mkNode ''node_2'' ''LLM'')],
           phases = [Resolving, Running, Failed]\<rparr>"
  by code_simp

text \<open>
  C2, as the code has it. In a run that enters Running and in which no node fails, the
  log is the start entry followed, in the order of the resolved sequence, by one entry
  for each node whose type has a branch in the loop (Start, End, LLM, Web Scraping,
  Embedding Generator, Similarity Search), carrying the marker text or the text made from
  the service's answer; a node of any other type is passed over without an entry. The
  run ends in Completed.
\<close>

theorem run_without_failure_logs_each_branch_node:
  assumes order: "getExecutionOrder nodes edges = Some (Some order)"
    and ok: "\<forall>j<length order. \<not> halts remote j (order ! j)"
  shows "\<exists>r. runFlow remote nodes edges = Some r \<and>
           phases r = [Resolving, Running, Completed] \<and>
           logMessages r = systemEntry (startedMessage (length order)) # entries remote 0 order \<and>
           map nodeId (logMessages r) = ''system'' # map node_id (filter hasBranch order) \<and>
           length (logMessages r) = 1 + length (filter hasBranch order) \<and>
           length (calls r) = length (filter isService order)"
proof -
  let ?st = "\<lparr>logMessages = [systemEntry (startedMessage (length order))],
              calls = [], phases = [Resolving, Running]\<rparr>"
  have pre: "\<forall>j<length order. \<not> halts remote (0 + j) (order ! j)"
    using ok by simp
  from runNodes_prefix[OF pre, of "[]" ?st]
  have "runNodes remote 0 order ?st =
      \<lparr>logMessages = systemEntry (startedMessage (length order)) # entries remote 0 order,
       calls = requests remote 0 order,
       phases = [Resolving, Running, Completed]\<rparr>"
    by (simp add: runNodes_Nil)
  with order show ?thesis
    by (simp add: runFlow_def entries_length entries_ids requests_length systemEntry_def)
qed

theorem run_without_failure_logs_each_branch_node_witness:
  "\<exists>r. runFlow answering
          [mkNode ''node_0'' ''Start'', mkNode ''node_1'' ''LLM'', mkNode ''node_2'' ''End'']
          [mkEdge ''node_0'' ''node_1'', mkEdge ''node_1'' ''node_2''] = Some r \<and>
       phases r = [Resolving, Running, Completed] \<and>
       map nodeId (logMessages r) = [''system'', ''node_0'', ''node_1'', ''node_2''] \<and>
       length (logMessages r) = 4 \<and> length (calls r) = 1"
proof -
  let ?order = "[mkNode ''node_0'' ''Start'', mkNode ''node_1'' ''LLM'', mkNode ''node_2'' ''End'']"
  have h1: "getExecutionOrder ?order [mkEdge ''node_0'' ''node_1'', mkEdge ''node_1'' ''node_2'']
              = Some (Some ?order)"
    by code_simp
  have h2: "\<forall>j<length ?order. \<not> halts answering j (?order ! j)"
  proof (intro allI impI)
    fix j assume "j < length ?order"
    then have "j = 0 \<or> j = 1 \<or> j = 2" by auto
    then show "\<not> halts answering j (?order ! j)"
      by (auto simp: halts_def executeNode_def mkNode_def answering_def llmResult_def)
  qed
  have f: "hasBranch (mkNode ''node_0'' ''Start'')" "hasBranch (mkNode ''node_1'' ''LLM'')"
    "hasBranch (mkNode ''node_2'' ''End'')" "\<not> isService (mkNode ''node_0'' ''Start'')"
    "isService (mkNode ''node_1'' ''LLM'')" "\<not> isService (mkNode ''node_2'' ''End'')"
    by (simp_all add: hasBranch_def isService_def mkNode_def)
  have ids: "node_id (mkNode ''node_0'' ''Start'') = ''node_0''"
    "node_id (mkNode ''node_1'' ''LLM'') = ''node_1''"
    "node_id (mkNode ''node_2'' ''End'') = ''node_2''"
    by (simp_all add: mkNode_def)
  from run_without_failure_logs_each_branch_node[OF h1 h2]
  show ?thesis
    apply (elim exE conjE)
    subgoal for r
      apply (rule exI[of _ r])
      apply (simp add: f ids)
      done
    done
qed

text \<open>
  C2 as stated fails on Start, Input, End: the run enters Running and completes, and the
  log has the start entry and the entries of Start and End, but none for the Input node.
\<close>

theorem input_node_gets_no_entry:
  "runFlow offline
     [mkNode ''node_0'' ''Start'', mkNode ''node_1'' ''Input'', mkNode ''node_2'' ''End'']
     [mkEdge ''node_0'' ''node_1'', mkEdge ''node_1'' ''node_2'']
   = Some \<lparr>logMessages =
             [systemEntry (startedMessage 3),
              logEntry (mkNode ''node_0'' ''Start'') (playMark @ '' Starting flow execution...''),
              logEntry (mkNode ''node_2'' ''End'')
                (stopMark @ '' Flow execution completed successfully'')],
           calls = [], phases = [Resolving, Running, Completed]\<rparr>"
  by code_simp

section \<open>Connecting nodes\<close>

lemma connectionExists_no_source:
  assumes "\<forall>el\<in>set edges. source el \<noteq> source e"
  shows "\<not> connectionExists e edges"
  using assms by (auto simp: connectionExists_def list_ex_iff)

lemma addEdge_cases:
  "addEdge params edges = edges \<or>
   (\<exists>e. addEdge params edges = edges @ [e] \<and>
        Some (source e) = c_source params \<and> Some (target e) = c_target params)"
proof (cases "c_source params")
  case None
  then show ?thesis by (simp add: addEdge_def)
next
  case (Some s)
  note s = this
  show ?thesis
  proof (cases "c_target params")
    case None
    with s show ?thesis by (simp add: addEdge_def)
  next
    case (Some t)
    with s show ?thesis by (simp add: addEdge_def Let_def)
  qed
qed

lemma addEdge_appends:
  assumes "c_source params = Some s" "c_target params = Some t" "s \<noteq> []" "t \<noteq> []"
    and "\<forall>el\<in>set edges. source el \<noteq> s"
  shows "\<exists>e. addEdge params edges = edges @ [e] \<and> source e = s \<and> target e = t"
  using assms by (simp add: addEdge_def Let_def connectionExists_no_source)


text \<open>
  C9. Where no two edges leave the same node, the edge list that \<open>onConnect\<close> stores
  again has no two edges leaving the same node: the edges that left the source of the
  new connection are taken out first, the others are kept in order, and then at most one
  edge is added, from that source to the connection's target; it is added whenever the
  connection has a source and a target.
\<close>

theorem onConnect_keeps_at_most_one_outgoing:
  assumes "atMostOneOutgoing eds"
  shows "atMostOneOutgoing (onConnect params eds) \<and>
         (\<exists>added. onConnect params eds =
                    filter (\<lambda>e. Some (source e) \<noteq> c_source params) eds @ added \<and>
                  length added \<le> 1 \<and>
                  (\<forall>e\<in>set added. Some (source e) = c_source params \<and>
                                  Some (target e) = c_target params) \<and>
                  ((\<exists>s t. c_source params = Some s \<and> c_target params = Some t \<and>
                          s \<noteq> [] \<and> t \<noteq> []) \<longrightarrow> length added = 1))"
proof -
  define kept where "kept = filter (\<lambda>e. Some (source e) \<noteq> c_source params) eds"
  have none: "\<forall>el\<in>set kept. Some (source el) \<noteq> c_source params"
    by (simp add: kept_def)
  from assms have dk: "distinct (map source kept)"
    by (simp add: atMostOneOutgoing_def kept_def distinct_map_filter)
  have on: "onConnect params eds = addEdge params kept"
    by (simp add: onConnect_def kept_def)
  show ?thesis
  proof (cases "addEdge params kept = kept")
    case True
    have nv: "\<not> (\<exists>s t. c_source params = Some s \<and> c_target params = Some t \<and>
                     s \<noteq> [] \<and> t \<noteq> [])"
    proof
      assume "\<exists>s t. c_source params = Some s \<and> c_target params = Some t \<and> s \<noteq> [] \<and> t \<noteq> []"
      then obtain s t where st: "c_source params = Some s" "c_target params = Some t"
        "s \<noteq> []" "t \<noteq> []" by blast
      from none st(1) have "\<forall>el\<in>set kept. source el \<noteq> s" by simp
      from addEdge_appends[OF st this] True show False by simp
    qed
    have "onConnect params eds = kept @ []" using on True by simp
    moreover have "atMostOneOutgoing (onConnect params eds)"
      using on True dk by (simp add: atMostOneOutgoing_def)
    ultimately show ?thesis
      unfolding kept_def[symmetric] using nv
      by (intro conjI exI[of _ "[]"]) simp_all
  next
    case False
    with addEdge_cases[of params kept] obtain e where e: "addEdge params kept = kept @ [e]"
      "Some (source e) = c_source params" "Some (target e) = c_target params"
      by blast
    from none e(2) have "source e \<notin> source ` set kept" by force
    with dk have "distinct (map source (kept @ [e]))" by simp
    then have "atMostOneOutgoing (onConnect params eds)"
      using on e(1) by (simp add: atMostOneOutgoing_def)
    moreover have "onConnect params eds = kept @ [e]" using on e(1) by simp
    ultimately show ?thesis
      unfolding kept_def[symmetric] using e(2,3)
      by (intro conjI exI[of _ "[e]"]) simp_all
  qed
qed

theorem onConnect_keeps_at_most_one_outgoing_witness:
  "atMostOneOutgoing
     (onConnect \<lparr>c_id = None, c_source = Some ''node_0'', c_target = Some ''node_2'',
                 c_sourceHandle = None, c_targetHandle = None\<rparr>
        [mkEdge ''node_0'' ''node_1'', mkEdge ''node_1'' ''node_2''])"
  using onConnect_keeps_at_most_one_outgoing
    [of "[mkEdge ''node_0'' ''node_1'', mkEdge ''node_1'' ''node_2'']"
        "\<lparr>c_id = None, c_source = Some ''node_0'', c_target = Some ''node_2'',
          c_sourceHandle = None, c_targetHandle = None\<rparr>"]
  by (simp add: atMostOneOutgoing_def mkEdge_def)

section \<open>Several edges from one source\<close>





section \<open>Resolving twice\<close>

lemma foldl_setAdjacency:
  "foldl setAdjacency s es =
     s\<lparr>st_adjacencyMap := foldl (\<lambda>m e. m(source e \<mapsto> target e)) (st_adjacencyMap s) es\<rparr>"
  by (induction es arbitrary: s) (simp_all add: setAdjacency_def)

text \<open>The loop writes the cells of \<open>executionOrder\<close> and \<open>currentNodeId\<close> and nothing else.\<close>

lemma traverse_frame:
  assumes "traverse s = Some s'"
  shows "st_nodes s' = st_nodes s \<and> st_edges s' = st_edges s \<and>
         st_logMessages s' = st_logMessages s \<and> st_adjacencyMap s' = st_adjacencyMap s"
  apply (rule traverse.raw_induct
      [where P = "\<lambda>s s'. st_nodes s' = st_nodes s \<and> st_edges s' = st_edges s \<and>
                    st_logMessages s' = st_logMessages s \<and>
                    st_adjacencyMap s' = st_adjacencyMap s", OF _ assms])
  subgoal premises prems for t s y
  proof (cases "st_currentNodeId s")
    case None
    with prems(2) show ?thesis by auto
  next
    case (Some cid)
    note cid = this
    show ?thesis
    proof (cases "cid = []")
      case True
      with cid prems(2) show ?thesis by auto
    next
      case False
      note ne = this
      show ?thesis
      proof (cases "find (\<lambda>n. node_id n = cid) (st_nodes s)")
        case None
        with cid ne prems(2) show ?thesis by auto
      next
        case (Some n)
        note n = this
        show ?thesis
        proof (cases "nodeType n = ''End''")
          case True
          with cid ne n prems(2) show ?thesis by auto
        next
          case False
          with cid ne n prems(2)
          have "t (s\<lparr>st_executionOrder := st_executionOrder s @ [n],
                     st_currentNodeId := st_adjacencyMap s cid\<rparr>) = Some y"
            by simp
          from prems(1)[OF this] show ?thesis by simp
        qed
      qed
    qed
  qed
  done

text \<open>The loop on the store leaves in \<open>executionOrder\<close> what the loop on values returns.\<close>

lemma traverse_walk:
  assumes "traverse s = Some s'"
  shows "walk (st_nodes s) (st_adjacencyMap s) (st_currentNodeId s) (st_executionOrder s) =
         Some (st_executionOrder s')"
  apply (rule traverse.raw_induct
      [where P = "\<lambda>s s'. walk (st_nodes s) (st_adjacencyMap s) (st_currentNodeId s)
                      (st_executionOrder s) = Some (st_executionOrder s')", OF _ assms])
  subgoal premises prems for t s y
  proof (cases "st_currentNodeId s")
    case None
    with prems(2) show ?thesis by (subst walk.simps) simp
  next
    case (Some cid)
    note cid = this
    show ?thesis
    proof (cases "cid = []")
      case True
      with cid prems(2) show ?thesis by (subst walk.simps) simp
    next
      case False
      note ne = this
      show ?thesis
      proof (cases "find (\<lambda>n. node_id n = cid) (st_nodes s)")
        case None
        with cid ne prems(2) show ?thesis by (subst walk.simps) simp
      next
        case (Some n)
        note n = this
        show ?thesis
        proof (cases "nodeType n = ''End''")
          case True
          with cid ne n prems(2) show ?thesis by (subst walk.simps) auto
        next
          case False
          with cid ne n prems(2)
          have "t (s\<lparr>st_executionOrder := st_executionOrder s @ [n],
                     st_currentNodeId := st_adjacencyMap s cid\<rparr>) = Some y"
            by simp
          from prems(1)[OF this] cid ne n False show ?thesis
            by (subst walk.simps) simp
        qed
      qed
    qed
  qed
  done

lemma walk_traverse:
  assumes "walk ns adj cur acc = Some y"
  shows "\<forall>s::store. st_nodes s = ns \<and> st_adjacencyMap s = adj \<and> st_currentNodeId s = cur \<and>
             st_executionOrder s = acc \<longrightarrow> (\<exists>s'. traverse s = Some s')"
  apply (rule walk.raw_induct
      [where P = "\<lambda>ns adj cur acc y.
                    \<forall>s::store. st_nodes s = ns \<and> st_adjacencyMap s = adj \<and> st_currentNodeId s = cur \<and>
                        st_executionOrder s = acc \<longrightarrow> (\<exists>s'. traverse s = Some s')", OF _ assms])
  subgoal premises prems for w ns adj cur acc y
  proof (intro allI impI)
    fix s :: store
    assume s: "st_nodes s = ns \<and> st_adjacencyMap s = adj \<and> st_currentNodeId s = cur \<and>
               st_executionOrder s = acc"
    show "\<exists>s'. traverse s = Some s'"
    proof (cases cur)
      case None
      with s show ?thesis by (subst traverse.simps) simp
    next
      case (Some cid)
      note cid = this
      show ?thesis
      proof (cases "cid = []")
        case True
        with cid s show ?thesis by (subst traverse.simps) simp
      next
        case False
        note ne = this
        show ?thesis
        proof (cases "find (\<lambda>n. node_id n = cid) ns")
          case None
          with cid ne s show ?thesis by (subst traverse.simps) simp
        next
          case (Some n)
          note n = this
          show ?thesis
          proof (cases "nodeType n = ''End''")
            case True
            with cid ne n s show ?thesis by (subst traverse.simps) simp
          next
            case False
            with cid ne n prems(2) have "w ns adj (adj cid) (acc @ [n]) = Some y"
              by simp
            from prems(1)[OF this, rule_format,
                of "s\<lparr>st_executionOrder := st_executionOrder s @ [n],
                      st_currentNodeId := st_adjacencyMap s cid\<rparr>"] s
            have "\<exists>s'. traverse (s\<lparr>st_executionOrder := st_executionOrder s @ [n],
                                     st_currentNodeId := st_adjacencyMap s cid\<rparr>) = Some s'"
              by simp
            with cid ne n False s show ?thesis
              by (subst traverse.simps) simp
          qed
        qed
      qed
    qed
  qed
  done

text \<open>The step on the store returns what the function on values returns.\<close>

lemma resolve_getExecutionOrder:
  "map_option fst (resolve s) = getExecutionOrder (st_nodes s) (st_edges s)"
proof (cases "find (\<lambda>n. nodeType n = ''Start'') (st_nodes s)")
  case None
  then show ?thesis by (simp add: resolve_def getExecutionOrder_def)
next
  case (Some startNode)
  note start = this
  show ?thesis
  proof (cases "find (\<lambda>n. nodeType n = ''End'') (st_nodes s)")
    case None
    with start show ?thesis by (simp add: resolve_def getExecutionOrder_def)
  next
    case (Some endNode)
    define s2 where "s2 = (foldl setAdjacency (s\<lparr>st_adjacencyMap := Map.empty\<rparr>) (st_edges s))
                      \<lparr>st_executionOrder := [], st_currentNodeId := Some (node_id startNode)\<rparr>"
    have s2: "st_nodes s2 = st_nodes s" "st_adjacencyMap s2 = buildAdjacency (st_edges s)"
      "st_currentNodeId s2 = Some (node_id startNode)" "st_executionOrder s2 = []"
      by (simp_all add: s2_def foldl_setAdjacency buildAdjacency_def)
    have r: "resolve s =
               (case traverse s2 of
                  None \<Rightarrow> None
                | Some s3 \<Rightarrow>
                    if st_executionOrder s3 = [] \<or> nodeType (last (st_executionOrder s3)) \<noteq> ''End''
                    then Some (None, s3)
                    else Some (Some (st_executionOrder s3), s3))"
      using start Some by (simp add: resolve_def s2_def Let_def)
    have g: "getExecutionOrder (st_nodes s) (st_edges s) =
               (case walk (st_nodes s) (buildAdjacency (st_edges s)) (Some (node_id startNode)) [] of
                  None \<Rightarrow> None
                | Some executionOrder \<Rightarrow>
                    if executionOrder = [] \<or> nodeType (last executionOrder) \<noteq> ''End''
                    then Some None
                    else Some (Some executionOrder))"
      using start Some by (simp add: getExecutionOrder_def)
    show ?thesis
    proof (cases "traverse s2")
      case None
      have "walk (st_nodes s) (buildAdjacency (st_edges s)) (Some (node_id startNode)) [] = None"
      proof (rule ccontr)
        assume "walk (st_nodes s) (buildAdjacency (st_edges s)) (Some (node_id startNode)) [] \<noteq> None"
        then obtain y where
          "walk (st_nodes s) (buildAdjacency (st_edges s)) (Some (node_id startNode)) [] = Some y"
          by auto
        from walk_traverse[OF this, rule_format, of s2] s2 None show False by simp
      qed
      with None r g show ?thesis by simp
    next
      case (Some s3)
      from traverse_walk[OF Some] s2
      have "walk (st_nodes s) (buildAdjacency (st_edges s)) (Some (node_id startNode)) [] =
            Some (st_executionOrder s3)"
        by simp
      with Some r g show ?thesis by simp
    qed
  qed
qed

text \<open>What a returning call leaves of the component state.\<close>

lemma resolve_frame:
  assumes "resolve s = Some (r, s')"
  shows "st_nodes s' = st_nodes s \<and> st_edges s' = st_edges s \<and>
         st_logMessages s' = st_logMessages s"
proof (cases "find (\<lambda>n. nodeType n = ''Start'') (st_nodes s)")
  case None
  with assms show ?thesis by (simp add: resolve_def)
next
  case (Some startNode)
  note start = this
  show ?thesis
  proof (cases "find (\<lambda>n. nodeType n = ''End'') (st_nodes s)")
    case None
    with start assms show ?thesis by (simp add: resolve_def)
  next
    case (Some endNode)
    define s2 where "s2 = (foldl setAdjacency (s\<lparr>st_adjacencyMap := Map.empty\<rparr>) (st_edges s))
                      \<lparr>st_executionOrder := [], st_currentNodeId := Some (node_id startNode)\<rparr>"
    have s2: "st_nodes s2 = st_nodes s" "st_edges s2 = st_edges s"
      "st_logMessages s2 = st_logMessages s"
      by (simp_all add: s2_def foldl_setAdjacency)
    have r: "resolve s =
               (case traverse s2 of
                  None \<Rightarrow> None
                | Some s3 \<Rightarrow>
                    if st_executionOrder s3 = [] \<or> nodeType (last (st_executionOrder s3)) \<noteq> ''End''
                    then Some (None, s3)
                    else Some (Some (st_executionOrder s3), s3))"
      using start Some by (simp add: resolve_def s2_def Let_def)
    from assms[unfolded r] have "traverse s2 = Some s'"
      by (cases "traverse s2") (simp_all split: if_splits)
    from traverse_frame[OF this] s2 show ?thesis by simp
  qed
qed

text \<open>
  C8. \<open>getExecutionOrder\<close> is a function of the nodes and the edges alone: two stores
  with the same nodes and edges get the same result, whatever their logs and whatever an
  earlier call has left in the cells of the local variables, and that result is the one
  of the function on values. A call that returns has written neither the nodes nor the
  edges nor the log, so that a second call returns the same result again. (Where the
  loop never leaves, neither call returns.)
\<close>

theorem resolve_is_a_function_of_nodes_and_edges:
  "map_option fst (resolve s) = getExecutionOrder (st_nodes s) (st_edges s) \<and>
   (\<forall>t::store. st_nodes t = st_nodes s \<and> st_edges t = st_edges s \<longrightarrow>
        map_option fst (resolve t) = map_option fst (resolve s)) \<and>
   (\<forall>r s'. resolve s = Some (r, s') \<longrightarrow>
        st_nodes s' = st_nodes s \<and> st_edges s' = st_edges s \<and>
        st_logMessages s' = st_logMessages s \<and>
        map_option fst (resolve s') = Some r)"
proof (intro conjI allI impI)
  show "map_option fst (resolve s) = getExecutionOrder (st_nodes s) (st_edges s)"
    by (rule resolve_getExecutionOrder)
next
  fix t :: store assume "st_nodes t = st_nodes s \<and> st_edges t = st_edges s"
  then show "map_option fst (resolve t) = map_option fst (resolve s)"
    by (simp add: resolve_getExecutionOrder)
next
  fix r s' assume r: "resolve s = Some (r, s')"
  from resolve_frame[OF r]
  show "st_nodes s' = st_nodes s" "st_edges s' = st_edges s"
    "st_logMessages s' = st_logMessages s"
    by simp_all
  from resolve_frame[OF r] have "map_option fst (resolve s') = map_option fst (resolve s)"
    by (simp add: resolve_getExecutionOrder)
  with r show "map_option fst (resolve s') = Some r" by simp
qed

theorem resolve_is_a_function_of_nodes_and_edges_witness:
  "\<exists>s'. resolve \<lparr>st_nodes = [mkNode ''node_0'' ''Start'', mkNode ''node_1'' ''End''],
                  st_edges = [mkEdge ''node_0'' ''node_1''],
                  st_logMessages = [systemEntry validationMessage],
                  st_adjacencyMap = [''node_0'' \<mapsto> ''node_7''],
                  st_executionOrder = [mkNode ''node_7'' ''LLM''],
                  st_currentNodeId = Some ''node_7''\<rparr>
          = Some (Some [mkNode ''node_0'' ''Start'', mkNode ''node_1'' ''End''], s') \<and>
        st_nodes s' = [mkNode ''node_0'' ''Start'', mkNode ''node_1'' ''End''] \<and>
        st_edges s' = [mkEdge ''node_0'' ''node_1''] \<and>
        st_logMessages s' = [systemEntry validationMessage] \<and>
        map_option fst (resolve s')
          = Some (Some [mkNode ''node_0'' ''Start'', mkNode ''node_1'' ''End'']) \<and>
        map_option fst
          (resolve \<lparr>st_nodes = [mkNode ''node_0'' ''Start'', mkNode ''node_1'' ''End''],
                    st_edges = [mkEdge ''node_0'' ''node_1''],
                    st_logMessages = [], st_adjacencyMap = Map.empty,
                    st_executionOrder = [], st_currentNodeId = None\<rparr>)
          = Some (Some [mkNode ''node_0'' ''Start'', mkNode ''node_1'' ''End''])"
proof -
  define s0 where "s0 = \<lparr>st_nodes = [mkNode ''node_0'' ''Start'', mkNode ''node_1'' ''End''],
                  st_edges = [mkEdge ''node_0'' ''node_1''],
                  st_logMessages = [systemEntry validationMessage],
                  st_adjacencyMap = [''node_0'' \<mapsto> ''node_7''],
                  st_executionOrder = [mkNode ''node_7'' ''LLM''],
                  st_currentNodeId = Some ''node_7''\<rparr>"
  define t0 where "t0 = \<lparr>st_nodes = [mkNode ''node_0'' ''Start'', mkNode ''node_1'' ''End''],
                    st_edges = [mkEdge ''node_0'' ''node_1''],
                    st_logMessages = [], st_adjacencyMap = Map.empty,
                    st_executionOrder = [], st_currentNodeId = None\<rparr>"
  have sel: "st_nodes s0 = [mkNode ''node_0'' ''Start'', mkNode ''node_1'' ''End'']"
    "st_edges s0 = [mkEdge ''node_0'' ''node_1'']"
    "st_logMessages s0 = [systemEntry validationMessage]"
    "st_nodes t0 = st_nodes s0" "st_edges t0 = st_edges s0"
    by (simp_all add: s0_def t0_def)
  have g: "getExecutionOrder [mkNode ''node_0'' ''Start'', mkNode ''node_1'' ''End'']
             [mkEdge ''node_0'' ''node_1'']
           = Some (Some [mkNode ''node_0'' ''Start'', mkNode ''node_1'' ''End''])"
    by code_simp
  note T = resolve_is_a_function_of_nodes_and_edges[of s0]
  from T[THEN conjunct1] have A: "map_option fst (resolve s0)
      = Some (Some [mkNode ''node_0'' ''Start'', mkNode ''node_1'' ''End''])"
    unfolding sel g .
  then obtain s' where s': "resolve s0
      = Some (Some [mkNode ''node_0'' ''Start'', mkNode ''node_1'' ''End''], s')"
    by (cases "resolve s0") auto
  from T[THEN conjunct2, THEN conjunct2, rule_format, OF s']
  have F: "st_nodes s' = st_nodes s0" "st_edges s' = st_edges s0"
    "st_logMessages s' = st_logMessages s0"
    "map_option fst (resolve s')
       = Some (Some [mkNode ''node_0'' ''Start'', mkNode ''node_1'' ''End''])"
    by simp_all
  from T[THEN conjunct2, THEN conjunct1, rule_format, of t0] sel(4,5) A
  have B: "map_option fst (resolve t0)
       = Some (Some [mkNode ''node_0'' ''Start'', mkNode ''node_1'' ''End''])"
    by simp
  from s' F B show ?thesis
    unfolding sel unfolding s0_def t0_def
    by (intro exI[of _ s']) simp
qed

section \<open>Numeric parameters\<close>

lemmas parse_defs = parseInt_def parseFloat_def splitSign_def isSign_def isDigitOf_def
  digitVal_def digitsValue_def exponentOf_def whiteLen_def trimStart.simps Let_def

lemmas number_defs = toNumber_def floorLog2_def pow2_def roundHalfEven_def bits.simps Let_def

lemma parse_default_texts:
  "parseFloat ''0.7'' = toNumber False (7 / 10)"
  "parseInt ''1024'' = toNumber False 1024" "parseInt ''40'' = toNumber False 40"
  "parseInt ''5'' = toNumber False 5" "parseInt ''many'' = NaN"
  by (simp_all add: parse_defs)

lemma default_numbers:
  "toNumber False 1024 = Num 1024" "toNumber False 40 = Num 40" "toNumber False 5 = Num 5"
  by (simp_all add: number_defs)

lemma param_cases:
  "param n key dflt =
     (case map_of (parameters n) key of
        None \<Rightarrow> dflt
      | Some v \<Rightarrow> if v = [] then dflt else v)"
  by (simp add: param_def orElse_def split: option.splits)

text \<open>
  C7, as the code has it. The generation route answers an LLM node's request with 400
  when the node has no \<open>userMessage\<close> and with 500 when no key is configured, and
  parses nothing then. Otherwise \<open>temperature\<close>, \<open>maxOutputTokens\<close> and \<open>topK\<close> reach it as
  text, the texts \<open>0.7\<close>, \<open>1024\<close> and \<open>40\<close> standing in for a parameter that is absent or
  empty, and it parses them with \<open>parseFloat\<close> and \<open>parseInt\<close>: an absent or empty
  parameter gives 0.7, 1024 and 40, and any other text gives whatever the parser makes of
  it, which is \<open>NaN\<close> for a text that is not a number. The search route answers a
  Similarity Search node's request with 400 when the node has no \<open>query\<close> and with 500
  when no key is configured; otherwise \<open>topK\<close> gives 5 when it is absent or empty and also
  when \<open>parseInt\<close> makes \<open>NaN\<close> or a zero of it.
\<close>

theorem numeric_parameters_and_defaults:
  "geminiGenerationConfig geminiKey (userMessage (llmRequest n)) (temperature (llmRequest n))
     (maxOutputTokens (llmRequest n)) (topK (llmRequest n)) =
     (if param n ''userMessage'' [] = []
      then Inl \<lparr>re_status = 400, re_error = ''userMessage is required.'', re_details = []\<rparr>
      else if geminiKey = None \<or> geminiKey = Some []
      then Inl \<lparr>re_status = 500, re_error = ''GEMINI_API_KEY not configured'', re_details = []\<rparr>
      else Inr \<lparr>gc_temperature =
                   (case map_of (parameters n) ''temperature'' of
                      None \<Rightarrow> toNumber False (7 / 10)
                    | Some v \<Rightarrow> if v = [] then toNumber False (7 / 10) else parseFloat v),
                 gc_topK =
                   (case map_of (parameters n) ''topK'' of
                      None \<Rightarrow> Num 40
                    | Some v \<Rightarrow> if v = [] then Num 40 else parseInt v),
                 gc_topP = toNumber False (95 / 100),
                 gc_maxOutputTokens =
                   (case map_of (parameters n) ''maxOutputTokens'' of
                      None \<Rightarrow> Num 1024
                    | Some v \<Rightarrow> if v = [] then Num 1024 else parseInt v)\<rparr>) \<and>
   pineconeTopKResults pineconeKey (query (searchRequest n)) (searchTopK (searchRequest n)) =
     (if param n ''query'' [] = []
      then Inl \<lparr>re_status = 400, re_error = ''Query is required for similarity search'',
                re_details = []\<rparr>
      else if pineconeKey = None \<or> pineconeKey = Some []
      then Inl \<lparr>re_status = 500, re_error = ''Pinecone operation failed'',
                re_details = ''PINECONE_API_KEY is not configured''\<rparr>
      else Inr (case map_of (parameters n) ''topK'' of
                  None \<Rightarrow> Num 5
                | Some v \<Rightarrow>
                    if v = [] then Num 5
                    else if parseInt v = NaN \<or> parseInt v = NegZero \<or> parseInt v = Num 0
                    then Num 5 else parseInt v))"
proof (rule conjI)
  show "geminiGenerationConfig geminiKey (userMessage (llmRequest n)) (temperature (llmRequest n))
     (maxOutputTokens (llmRequest n)) (topK (llmRequest n)) =
     (if param n ''userMessage'' [] = []
      then Inl \<lparr>re_status = 400, re_error = ''userMessage is required.'', re_details = []\<rparr>
      else if geminiKey = None \<or> geminiKey = Some []
      then Inl \<lparr>re_status = 500, re_error = ''GEMINI_API_KEY not configured'', re_details = []\<rparr>
      else Inr \<lparr>gc_temperature =
                   (case map_of (parameters n) ''temperature'' of
                      None \<Rightarrow> toNumber False (7 / 10)
                    | Some v \<Rightarrow> if v = [] then toNumber False (7 / 10) else parseFloat v),
                 gc_topK =
                   (case map_of (parameters n) ''topK'' of
                      None \<Rightarrow> Num 40
                    | Some v \<Rightarrow> if v = [] then Num 40 else parseInt v),
                 gc_topP = toNumber False (95 / 100),
                 gc_maxOutputTokens =
                   (case map_of (parameters n) ''maxOutputTokens'' of
                      None \<Rightarrow> Num 1024
                    | Some v \<Rightarrow> if v = [] then Num 1024 else parseInt v)\<rparr>)"
    by (simp add: geminiGenerationConfig_def llmRequest_def param_cases[of n "''temperature''"]
          param_cases[of n "''topK''"] param_cases[of n "''maxOutputTokens''"]
          parse_default_texts default_numbers Let_def
        split: option.splits)
next
  show "pineconeTopKResults pineconeKey (query (searchRequest n)) (searchTopK (searchRequest n)) =
     (if param n ''query'' [] = []
      then Inl \<lparr>re_status = 400, re_error = ''Query is required for similarity search'',
                re_details = []\<rparr>
      else if pineconeKey = None \<or> pineconeKey = Some []
      then Inl \<lparr>re_status = 500, re_error = ''Pinecone operation failed'',
                re_details = ''PINECONE_API_KEY is not configured''\<rparr>
      else Inr (case map_of (parameters n) ''topK'' of
                  None \<Rightarrow> Num 5
                | Some v \<Rightarrow>
                    if v = [] then Num 5
                    else if parseInt v = NaN \<or> parseInt v = NegZero \<or> parseInt v = Num 0
                    then Num 5 else parseInt v))"
    by (simp add: pineconeTopKResults_def searchRequest_def param_cases[of n "''topK''"]
          parse_default_texts default_numbers truthy_def Let_def
        split: option.splits)
qed

theorem numeric_parameters_and_defaults_witness:
  "geminiGenerationConfig (Some ''key'')
     (userMessage (llmRequest \<lparr>node_id = ''node_1'', nodeType = ''LLM'', label = ''LLM'',
                               parameters = [(''userMessage'', ''Hi'')]\<rparr>))
     (temperature (llmRequest \<lparr>node_id = ''node_1'', nodeType = ''LLM'', label = ''LLM'',
                               parameters = [(''userMessage'', ''Hi'')]\<rparr>))
     (maxOutputTokens (llmRequest \<lparr>node_id = ''node_1'', nodeType = ''LLM'', label = ''LLM'',
                               parameters = [(''userMessage'', ''Hi'')]\<rparr>))
     (topK (llmRequest \<lparr>node_id = ''node_1'', nodeType = ''LLM'', label = ''LLM'',
                               parameters = [(''userMessage'', ''Hi'')]\<rparr>))
   = Inr \<lparr>gc_temperature = toNumber False (7 / 10), gc_topK = Num 40,
           gc_topP = toNumber False (95 / 100), gc_maxOutputTokens = Num 1024\<rparr> \<and>
   pineconeTopKResults (Some ''key'')
     (query (searchRequest \<lparr>node_id = ''node_2'', nodeType = ''Similarity Search'',
                             label = ''Search'',
                             parameters = [(''query'', ''cats''), (''topK'', ''many'')]\<rparr>))
     (searchTopK (searchRequest \<lparr>node_id = ''node_2'', nodeType = ''Similarity Search'',
                             label = ''Search'',
                             parameters = [(''query'', ''cats''), (''topK'', ''many'')]\<rparr>))
   = Inr (Num 5)"
proof (rule conjI)
  show "geminiGenerationConfig (Some ''key'')
     (userMessage (llmRequest \<lparr>node_id = ''node_1'', nodeType = ''LLM'', label = ''LLM'',
                               parameters = [(''userMessage'', ''Hi'')]\<rparr>))
     (temperature (llmRequest \<lparr>node_id = ''node_1'', nodeType = ''LLM'', label = ''LLM'',
                               parameters = [(''userMessage'', ''Hi'')]\<rparr>))
     (maxOutputTokens (llmRequest \<lparr>node_id = ''node_1'', nodeType = ''LLM'', label = ''LLM'',
                               parameters = [(''userMessage'', ''Hi'')]\<rparr>))
     (topK (llmRequest \<lparr>node_id = ''node_1'', nodeType = ''LLM'', label = ''LLM'',
                               parameters = [(''userMessage'', ''Hi'')]\<rparr>))
   = Inr \<lparr>gc_temperature = toNumber False (7 / 10), gc_topK = Num 40,
           gc_topP = toNumber False (95 / 100), gc_maxOutputTokens = Num 1024\<rparr>"
    using numeric_parameters_and_defaults
      [of "Some ''key''" "\<lparr>node_id = ''node_1'', nodeType = ''LLM'', label = ''LLM'',
                           parameters = [(''userMessage'', ''Hi'')]\<rparr>", THEN conjunct1]
    by (simp add: param_def orElse_def)
next
  show "pineconeTopKResults (Some ''key'')
     (query (searchRequest \<lparr>node_id = ''node_2'', nodeType = ''Similarity Search'',
                             label = ''Search'',
                             parameters = [(''query'', ''cats''), (''topK'', ''many'')]\<rparr>))
     (searchTopK (searchRequest \<lparr>node_id = ''node_2'', nodeType = ''Similarity Search'',
                             label = ''Search'',
                             parameters = [(''query'', ''cats''), (''topK'', ''many'')]\<rparr>))
   = Inr (Num 5)"
    using numeric_parameters_and_defaults
      [of _ _ "Some ''key''", THEN conjunct2,
       of "\<lparr>node_id = ''node_2'', nodeType = ''Similarity Search'', label = ''Search'',
            parameters = [(''query'', ''cats''), (''topK'', ''many'')]\<rparr>"]
    by (simp add: param_def orElse_def parse_default_texts)
qed

text \<open>
  C7 as stated fails for an LLM parameter that is not blank and not a number: with a
  \<open>userMessage\<close> and a key in place, the text \<open>many\<close> for \<open>maxOutputTokens\<close> is parsed to
  \<open>NaN\<close>, not replaced by 1024.
\<close>

theorem unparsable_llm_parameter_is_NaN:
  "geminiGenerationConfig (Some ''key'')
     (userMessage (llmRequest \<lparr>node_id = ''node_1'', nodeType = ''LLM'', label = ''LLM'',
         parameters = [(''userMessage'', ''Hi''), (''maxOutputTokens'', ''many'')]\<rparr>))
     (temperature (llmRequest \<lparr>node_id = ''node_1'', nodeType = ''LLM'', label = ''LLM'',
         parameters = [(''userMessage'', ''Hi''), (''maxOutputTokens'', ''many'')]\<rparr>))
     (maxOutputTokens (llmRequest \<lparr>node_id = ''node_1'', nodeType = ''LLM'', label = ''LLM'',
         parameters = [(''userMessage'', ''Hi''), (''maxOutputTokens'', ''many'')]\<rparr>))
     (topK (llmRequest \<lparr>node_id = ''node_1'', nodeType = ''LLM'', label = ''LLM'',
         parameters = [(''userMessage'', ''Hi''), (''maxOutputTokens'', ''many'')]\<rparr>))
   = Inr \<lparr>gc_temperature = toNumber False (7 / 10), gc_topK = Num 40,
           gc_topP = toNumber False (95 / 100), gc_maxOutputTokens = NaN\<rparr>"
  by (simp add: geminiGenerationConfig_def llmRequest_def param_def orElse_def
        parse_default_texts default_numbers)

end
